theory Spec2Isabelle
  imports Main
begin

section \<open>Python values used by the program\<close>

text \<open>
  The program is a single Python module (\<^verbatim>\<open>anomaly_001.py\<close>). Strings are modelled as
  \<^typ>\<open>string\<close>; Python integers as \<^typ>\<open>int\<close>; list positions as \<^typ>\<open>nat\<close>.
  Exceptions are values of \<open>py_error\<close>, and a computation that may raise returns
  \<open>py_error + 'a\<close>. Everything the program draws from \<^verbatim>\<open>random\<close>, reads from the
  user or receives from the network is an explicit argument of the model.
\<close>

datatype py_error = IndexError | ValueError | AttributeError | URLError

text \<open>The decimal digit character of \<open>d < 10\<close>, and the test for an ASCII digit.\<close>

definition digit_char :: "nat \<Rightarrow> char" where
  "digit_char d = char_of (48 + d)"

definition is_ascii_digit :: "char \<Rightarrow> bool" where
  "is_ascii_digit c = (48 \<le> (of_char c :: nat) \<and> (of_char c :: nat) \<le> 57)"

text \<open>\<^verbatim>\<open>str(n)\<close> for a natural number: its decimal digits, most significant first.\<close>

fun dec_digits :: "nat \<Rightarrow> string" where
  "dec_digits n =
     (if n < 10 then [digit_char n] else dec_digits (n div 10) @ [digit_char (n mod 10)])"

definition zero_pad :: "nat \<Rightarrow> string \<Rightarrow> string" where
  "zero_pad w s = replicate (w - length s) (CHR ''0'') @ s"

text \<open>
  \<^verbatim>\<open>"{:04d}".format(n)\<close>: sign-aware zero padding to a minimum width of four characters;
  a longer number is not truncated.
\<close>

definition format_04d :: "int \<Rightarrow> string" where
  "format_04d n =
     (if n < 0 then CHR ''-'' # zero_pad 3 (dec_digits (nat (- n)))
      else zero_pad 4 (dec_digits (nat n)))"

text \<open>
  \<^verbatim>\<open>def new_secret_code(): return "{:04d}".format(random.randint(0, 9999))\<close>.
  The argument \<open>r\<close> is the value drawn by \<^verbatim>\<open>random.randint(0, 9999)\<close>, which the
  library takes uniformly from the integers \<open>0 \<le> r \<le> 9999\<close>.
\<close>

definition new_secret_code :: "int \<Rightarrow> string" where
  "new_secret_code r = format_04d r"

text \<open>The number a string of decimal digits denotes (used to state the padding property).\<close>

definition decimal_value :: "string \<Rightarrow> nat" where
  "decimal_value s = foldl (\<lambda>a c. 10 * a + (of_char c - 48)) 0 s"

definition four_digits :: "string \<Rightarrow> bool" where
  "four_digits s = (length s = 4 \<and> list_all is_ascii_digit s)"

subsection \<open>Strings: \<^verbatim>\<open>str.strip\<close> and \<^verbatim>\<open>str.lower\<close>\<close>

text \<open>
  A string is a list of the 8-bit characters of \<^typ>\<open>char\<close>, read as the code points 0
  to 255. On that range \<^verbatim>\<open>str.isspace\<close> holds for the code points 9 to 13, 28 to 32,
  133 and 160, and \<^verbatim>\<open>str.lower\<close> adds 32 to the code points 65 to 90 and 192 to 222
  (215 apart) and leaves every other one alone. Text with code points beyond 255 is
  outside the model.
\<close>

definition py_isspace :: "char \<Rightarrow> bool" where
  "py_isspace c =
     (let n = (of_char c :: nat)
      in (9 \<le> n \<and> n \<le> 13) \<or> (28 \<le> n \<and> n \<le> 32) \<or> n = 133 \<or> n = 160)"

definition py_strip :: "string \<Rightarrow> string" where
  "py_strip s = rev (dropWhile py_isspace (rev (dropWhile py_isspace s)))"

definition py_lower_char :: "char \<Rightarrow> char" where
  "py_lower_char c =
     (let n = (of_char c :: nat)
      in if (65 \<le> n \<and> n \<le> 90) \<or> (192 \<le> n \<and> n \<le> 222 \<and> n \<noteq> 215)
         then char_of (n + 32) else c)"

definition py_lower :: "string \<Rightarrow> string" where
  "py_lower s = map py_lower_char s"

text \<open>Truthiness of an optional string: \<^verbatim>\<open>None\<close> and \<^verbatim>\<open>""\<close> are false.\<close>

fun truthy_str :: "string option \<Rightarrow> bool" where
  "truthy_str None = False"
| "truthy_str (Some s) = (s \<noteq> [])"

section \<open>User interface effects\<close>

text \<open>
  The toolkit calls the claims are about are recorded as a trace of \<open>ui_action\<close>s, in
  the order the program performs them. A message box carries its title and text; an
  input dialog (\<^verbatim>\<open>simpledialog.askstring\<close>, \<^verbatim>\<open>messagebox.askyesno\<close>) is recorded when
  it is shown, and what the user enters is an argument of the function that shows it.
  Overlay windows are named by the number of the \<^verbatim>\<open>tk.Toplevel\<close> object.
\<close>

datatype window = RootWindow | OverlayWindow nat

datatype ui_action =
    ShowInfo string string
  | ShowWarning string string
  | ShowError string string
  | AskString string string
  | AskYesNo string string
  | BringToFront window
  | CreateOverlay nat
  | AfterFinish nat int
  | DestroyOverlay nat
  | AfterDeiconify
  | DestroyRoot

text \<open>
  \<^verbatim>\<open>bring_to_front(win)\<close> returns at once when \<^verbatim>\<open>win is None\<close>; otherwise it raises and
  focuses the window (every toolkit failure inside is caught there).
\<close>

fun bring_to_front :: "window option \<Rightarrow> ui_action list" where
  "bring_to_front None = []"
| "bring_to_front (Some w) = [BringToFront w]"

section \<open>Secret helpers: Clue Finder and Trivia Helper\<close>

text \<open>
  \<^verbatim>\<open>class SecretHelpers\<close>. The field \<^verbatim>\<open>root\<close> is the main window and is left out.
\<close>

record secret_helpers =
  secret :: string
  clue_positions :: "nat list"
  trivia_positions :: "nat list"

text \<open>
  \<^verbatim>\<open>SecretHelpers.__init__\<close>. The argument \<open>shuffled\<close> is \<^verbatim>\<open>all_positions\<close> after
  \<^verbatim>\<open>random.shuffle(all_positions)\<close> has permuted \<^verbatim>\<open>list(range(4))\<close> in place;
  \<open>is_shuffle\<close> says that it is such a permutation.
\<close>

definition is_shuffle :: "nat list \<Rightarrow> bool" where
  "is_shuffle ps = (distinct ps \<and> set ps = {0, 1, 2, 3})"

definition SecretHelpers_init :: "string \<Rightarrow> nat list \<Rightarrow> secret_helpers" where
  "SecretHelpers_init secret_code shuffled =
     (let all_positions = shuffled;
          clue = sort (take 2 all_positions);
          trivia = sort (filter (\<lambda>p. p \<notin> set clue) all_positions)
      in \<lparr>secret = secret_code, clue_positions = clue, trivia_positions = trivia\<rparr>)"

text \<open>
  The masking loop, written twice in the source (in \<^verbatim>\<open>clue_finder\<close> and in
  \<^verbatim>\<open>trivia_helper\<close>) with the same body:
  \<^verbatim>\<open>s = list("****"); for pos in positions: s[pos] = self.secret[pos]; pattern = "".join(s)\<close>.
  Reading \<^verbatim>\<open>secret[pos]\<close> or writing \<^verbatim>\<open>s[pos]\<close> out of range raises \<^verbatim>\<open>IndexError\<close>.
\<close>

fun reveal_loop :: "string \<Rightarrow> nat list \<Rightarrow> string \<Rightarrow> py_error + string" where
  "reveal_loop sec [] s = Inr s"
| "reveal_loop sec (pos # ps) s =
     (if pos < length sec \<and> pos < length s then reveal_loop sec ps (s[pos := sec ! pos])
      else Inl IndexError)"

definition reveal_pattern :: "string \<Rightarrow> nat list \<Rightarrow> py_error + string" where
  "reveal_pattern sec positions = reveal_loop sec positions ''****''"

text \<open>
  \<^verbatim>\<open>SecretHelpers.clue_finder\<close>: the object after the call (no attribute is assigned)
  and either the exception raised or the trace of the dialogs shown.
\<close>

definition clue_finder :: "secret_helpers \<Rightarrow> secret_helpers \<times> (py_error + ui_action list)" where
  "clue_finder self =
     (case reveal_pattern (secret self) (clue_positions self) of
        Inl e \<Rightarrow> (self, Inl e)
      | Inr pattern \<Rightarrow>
          (self, Inr (ShowInfo ''Clue Finder'' (''Clue revealed: '' @ pattern)
                      # bring_to_front (Some RootWindow))))"

subsection \<open>Quizzes\<close>

text \<open>
  \<^verbatim>\<open>random.sample(population, k)\<close> raises \<^verbatim>\<open>ValueError\<close> when \<open>k\<close> exceeds the size of
  the population, and otherwise returns the elements at \<open>k\<close> distinct positions, in
  the order drawn. The positions drawn are the argument \<open>idxs\<close>; \<open>valid_sample\<close> says
  that they are \<open>k\<close> distinct positions of a population of size \<open>n\<close>.
\<close>

definition valid_sample :: "nat \<Rightarrow> nat \<Rightarrow> nat list \<Rightarrow> bool" where
  "valid_sample n k idxs = (length idxs = k \<and> distinct idxs \<and> list_all (\<lambda>i. i < n) idxs)"

definition random_sample :: "'a list \<Rightarrow> nat \<Rightarrow> nat list \<Rightarrow> py_error + 'a list" where
  "random_sample population k idxs =
     (if k > length population then Inl ValueError else Inr (map (\<lambda>i. population ! i) idxs))"

text \<open>
  The test of one answer, the same in both quizzes:
  \<^verbatim>\<open>if ans and ans.strip().lower() == a.lower()\<close>, where \<^verbatim>\<open>ans\<close> is what
  \<^verbatim>\<open>askstring\<close> returned (\<^verbatim>\<open>None\<close> when the dialog is cancelled).
\<close>

definition answer_matches :: "string option \<Rightarrow> string \<Rightarrow> bool" where
  "answer_matches ans a =
     (case ans of None \<Rightarrow> False
      | Some t \<Rightarrow> truthy_str ans \<and> py_lower (py_strip t) = py_lower a)"

text \<open>
  A blank or cancelled reply: the dialog was cancelled, or what was entered is empty or
  only whitespace.
\<close>

definition blank_reply :: "string option \<Rightarrow> bool" where
  "blank_reply ans = (case ans of None \<Rightarrow> True | Some t \<Rightarrow> py_strip t = [])"

text \<open>
  The question loop, written in both quizzes with the same body and its own dialog title:
  \<^verbatim>\<open>for q, a in picks: ans = askstring(title, q); if ...: correct += 1\<close>.
  The \<open>i\<close>-th dialog of the loop returns \<open>answers i\<close>; \<open>correct\<close> is the count on entry.
  The loop returns the final \<^verbatim>\<open>correct\<close> and the dialogs shown.
\<close>

fun quiz_loop ::
  "string \<Rightarrow> (nat \<Rightarrow> string option) \<Rightarrow> nat \<Rightarrow> (string \<times> string) list \<Rightarrow> int
   \<Rightarrow> int \<times> ui_action list" where
  "quiz_loop title answers i [] correct = (correct, [])"
| "quiz_loop title answers i ((q, a) # picks) correct =
     (let ans = answers i;
          correct' = (if answer_matches ans a then correct + 1 else correct);
          (c, tr) = quiz_loop title answers (Suc i) picks correct'
      in (c, AskString title q # tr))"

text \<open>\<^verbatim>\<open>str(n)\<close> of an integer, for the messages that print a count.\<close>

definition py_str_int :: "int \<Rightarrow> string" where
  "py_str_int n = (if n < 0 then CHR ''-'' # dec_digits (nat (- n)) else dec_digits (nat n))"

definition trivia_qpool :: "(string \<times> string) list" where
  "trivia_qpool =
    [(''What is the atomic number of gold?'', ''79''),
     (''Which planet has the most moons (as of 2023)?'', ''saturn''),
     (''What is the capital city of Peru?'', ''lima''),
     (''In computing, what does 'CPU' stand for?'', ''central processing unit''),
     (''What is the approximate value of pi to 2 decimal places?'', ''3.14''),
     (''What year did the Berlin Wall fall?'', ''1989''),
     (''Which element has chemical symbol 'Na'?'', ''sodium''),
     (''Who wrote '1984'?'', ''george orwell''),
     (''What is the largest ocean on Earth?'', ''pacific''),
     (''What language is primarily spoken in Brazil?'', ''portuguese'')]"

text \<open>
  \<^verbatim>\<open>SecretHelpers.trivia_helper\<close>. \<open>idxs\<close> are the positions drawn by
  \<^verbatim>\<open>random.sample(qpool, 5)\<close> and \<open>answers\<close> the user's replies. The result is the
  exception raised, or the final value of the local \<^verbatim>\<open>correct\<close> with the trace of the
  dialogs; the object itself is returned unchanged.
\<close>

definition trivia_helper ::
  "secret_helpers \<Rightarrow> nat list \<Rightarrow> (nat \<Rightarrow> string option)
   \<Rightarrow> secret_helpers \<times> (py_error + int \<times> ui_action list)" where
  "trivia_helper self idxs answers =
     (case random_sample trivia_qpool 5 idxs of
        Inl e \<Rightarrow> (self, Inl e)
      | Inr picks \<Rightarrow>
          (let (correct, asked) = quiz_loop ''Trivia Helper'' answers 0 picks 0 in
           if correct = 5 then
             (case reveal_pattern (secret self) (trivia_positions self) of
                Inl e \<Rightarrow> (self, Inl e)
              | Inr pattern \<Rightarrow>
                  (self, Inr (correct,
                     asked @ ShowInfo ''Trivia Helper'' (''Passed! Revealed: '' @ pattern)
                       # bring_to_front (Some RootWindow))))
           else
             (self, Inr (correct,
                asked @ ShowInfo ''Trivia Helper''
                          (''You got '' @ py_str_int correct @ ''/5 correct.'')
                  # bring_to_front (Some RootWindow)))))"

section \<open>Emergency quiz\<close>

text \<open>How a handler ends: it returns to the event loop, or the process exits.\<close>

datatype outcome = Returned | Exited int

definition emergency_qpool :: "(string \<times> string) list" where
  "emergency_qpool =
    [(''What is the capital of Iceland?'', ''reykjavik''),
     (''What year did the Titanic sink?'', ''1912''),
     (''What is the chemical formula for table salt?'', ''nacl''),
     (''Who painted the Mona Lisa?'', ''leonardo da vinci''),
     (''Which gas makes up ~78% of Earth's atmosphere?'', ''nitrogen''),
     (''What is the largest planet in our solar system?'', ''jupiter''),
     (''What is the square root of 144?'', ''12''),
     (''Which metal has the highest electrical conductivity?'', ''silver''),
     (''In which country is the Taj Mahal located?'', ''india''),
     (''Who proposed the theory of general relativity?'', ''albert einstein''),
     (''What is the freezing point of water in Celsius?'', ''0''),
     (''Which city hosted the 2012 Summer Olympics?'', ''london''),
     (''What currency is used in Japan?'', ''yen''),
     (''What is the chemical symbol for iron?'', ''fe''),
     (''Which scientist discovered penicillin?'', ''alexander fleming'')]"

text \<open>The test of the entered code: \<^verbatim>\<open>if code and code.strip() == secret_code\<close>.\<close>

definition code_accepted :: "string option \<Rightarrow> string \<Rightarrow> bool" where
  "code_accepted code secret_code =
     (case code of None \<Rightarrow> False
      | Some c \<Rightarrow> truthy_str code \<and> py_strip c = secret_code)"

definition confirm_dialog :: ui_action where
  "confirm_dialog = AskYesNo ''Emergency'' ''Start the emergency quiz (10 questions)?''"

text \<open>The dash of the message text is written as the three bytes of its UTF-8 form.\<close>

definition perfect_dialog :: ui_action where
  "perfect_dialog =
     ShowInfo ''Perfect''
       (''All correct '' @ [CHR 0xE2, CHR 0x80, CHR 0x94] @ '' enter the 4-digit secret code now.'')"

definition code_prompt :: ui_action where
  "code_prompt = AskString ''Enter Code'' ''Enter the 4-digit secret code:''"

text \<open>
  \<^verbatim>\<open>emergency_quiz_flow(root, secret_code)\<close>. \<open>confirm\<close> is the reply to the yes/no
  dialog, \<open>idxs\<close> the positions drawn by \<^verbatim>\<open>random.sample(qpool, 10)\<close>, \<open>answers\<close> the
  replies to the questions and \<open>code\<close> the reply to the code prompt (read only when the
  prompt is shown). The success branch destroys the main window and calls
  \<^verbatim>\<open>os._exit(0)\<close>.
\<close>

definition emergency_quiz_flow ::
  "string \<Rightarrow> bool \<Rightarrow> nat list \<Rightarrow> (nat \<Rightarrow> string option) \<Rightarrow> string option
   \<Rightarrow> py_error + ui_action list \<times> outcome" where
  "emergency_quiz_flow secret_code confirm idxs answers code =
     (if \<not> confirm then Inr (confirm_dialog # bring_to_front (Some RootWindow), Returned)
      else
        (case random_sample emergency_qpool 10 idxs of
           Inl e \<Rightarrow> Inl e
         | Inr picks \<Rightarrow>
             (let (correct, asked) = quiz_loop ''Emergency Quiz'' answers 0 picks 0;
                  wrong = 10 - correct
              in if wrong = 0 then
                   (if code_accepted code secret_code then
                      Inr (confirm_dialog # asked @
                           [perfect_dialog, code_prompt,
                            ShowInfo ''Unlocked'' ''Correct code! Escape key: Ctrl + Shift + K'',
                            DestroyRoot],
                           Exited 0)
                    else
                      Inr (confirm_dialog # asked @
                           [perfect_dialog, code_prompt, ShowError ''Wrong'' ''Incorrect code.''],
                           Returned))
                 else
                   Inr (confirm_dialog # asked @
                        ShowInfo ''Emergency Result''
                          (''You got '' @ py_str_int wrong @ ''/10 wrong.'')
                        # bring_to_front (Some RootWindow),
                        Returned))))"

section \<open>Close and minimize attempts\<close>

text \<open>
  The attributes the program keeps on the main window (\<^verbatim>\<open>root.attempts\<close>,
  \<^verbatim>\<open>root.overlay_open\<close>, \<^verbatim>\<open>root.active_overlay\<close>), together with the overlay windows
  that exist, the number of \<^verbatim>\<open>tk.Toplevel\<close> overlays created so far (the name of the
  next one) and the trace of the effects performed.
\<close>

record root_state =
  attempts :: int
  overlay_open :: bool
  active_overlay :: "nat option"
  overlays :: "nat list"
  created :: nat
  ui :: "ui_action list"

text \<open>The values \<^verbatim>\<open>run_app\<close> assigns before the event loop starts.\<close>

definition initial_root :: root_state where
  "initial_root =
     \<lparr>attempts = 0, overlay_open = False, active_overlay = None, overlays = [], created = 0,
      ui = []\<rparr>"

text \<open>
  \<^verbatim>\<open>show_overlay_then_reset(root, duration_ms)\<close>: with an overlay open it only brings the
  active overlay to the front; otherwise it creates the overlay window, sets the two
  attributes, schedules \<^verbatim>\<open>finish\<close> after \<open>duration_ms\<close> and brings the overlay to the
  front. (Labels and the dot animation of the overlay are cosmetic and left out.)
\<close>

definition show_overlay_then_reset :: "int \<Rightarrow> root_state \<Rightarrow> root_state" where
  "show_overlay_then_reset duration_ms rt =
     (if overlay_open rt then
        rt\<lparr>ui := ui rt @ bring_to_front (map_option OverlayWindow (active_overlay rt))\<rparr>
      else
        (let overlay = created rt in
         rt\<lparr>overlay_open := True,
            active_overlay := Some overlay,
            overlays := overlays rt @ [overlay],
            created := Suc overlay,
            ui := ui rt @ [CreateOverlay overlay, AfterFinish overlay duration_ms]
                    @ bring_to_front (Some (OverlayWindow overlay))\<rparr>))"

text \<open>
  The closure \<^verbatim>\<open>finish\<close> of the overlay \<open>overlay\<close>: it destroys that window and resets
  the attributes of the main window.
\<close>

definition finish :: "nat \<Rightarrow> root_state \<Rightarrow> root_state" where
  "finish overlay rt =
     rt\<lparr>overlays := removeAll overlay (overlays rt),
        overlay_open := False,
        active_overlay := None,
        attempts := 0,
        ui := ui rt @ DestroyOverlay overlay # bring_to_front (Some RootWindow)\<rparr>"

definition warning_dialog :: ui_action where
  "warning_dialog = ShowWarning ''Don't'' ''Don't do this again''"

text \<open>
  \<^verbatim>\<open>on_close_attempt\<close> (the handler of \<^verbatim>\<open>WM_DELETE_WINDOW\<close>). \<open>r\<close> is the value
  \<^verbatim>\<open>random.randint(9, 17)\<close> returns when the handler draws it.
\<close>

definition on_close_attempt :: "int \<Rightarrow> root_state \<Rightarrow> root_state" where
  "on_close_attempt r rt =
     (let rt1 = rt\<lparr>attempts := attempts rt + 1\<rparr> in
      if attempts rt1 = 1 then
        rt1\<lparr>ui := ui rt1 @ warning_dialog # bring_to_front (Some RootWindow)\<rparr>
      else
        (let dur = r * 1000 in show_overlay_then_reset dur rt1))"

text \<open>
  \<^verbatim>\<open>on_unmap\<close> (the handler of \<^verbatim>\<open><Unmap>\<close>). \<open>st\<close> is what \<^verbatim>\<open>root.state()\<close> returns;
  only the state \<^verbatim>\<open>"iconic"\<close> counts as an attempt, and the window is scheduled to be
  restored 50 ms later.
\<close>

definition on_unmap :: "string \<Rightarrow> int \<Rightarrow> root_state \<Rightarrow> root_state" where
  "on_unmap st r rt =
     (if st = ''iconic'' then
        (let rt1 = rt\<lparr>attempts := attempts rt + 1\<rparr>;
             rt2 = rt1\<lparr>ui := ui rt1 @ [AfterDeiconify]\<rparr>
         in if attempts rt2 = 1 then
              rt2\<lparr>ui := ui rt2 @ warning_dialog # bring_to_front (Some RootWindow)\<rparr>
            else
              (let dur = r * 1000 in show_overlay_then_reset dur rt2))
      else rt)"

text \<open>
  The events of the window guard, handled one at a time by the event loop. The timer of
  an overlay fires once, while that overlay exists: \<^verbatim>\<open>finish\<close> is the only code that
  destroys an overlay, and it is scheduled once, when the overlay is created.
\<close>

datatype event = CloseAttempt int | Unmap string int | FinishTimer nat

fun step :: "root_state \<Rightarrow> event \<Rightarrow> root_state" where
  "step rt (CloseAttempt r) = on_close_attempt r rt"
| "step rt (Unmap st r) = on_unmap st r rt"
| "step rt (FinishTimer overlay) =
     (if overlay \<in> set (overlays rt) then finish overlay rt else rt)"

definition run :: "event list \<Rightarrow> root_state" where
  "run evs = foldl step initial_root evs"

text \<open>The overlays a trace creates.\<close>

fun opened :: "ui_action list \<Rightarrow> nat list" where
  "opened [] = []"
| "opened (CreateOverlay n # tr) = n # opened tr"
| "opened (a # tr) = opened tr"

text \<open>
  The invariant of the states the event loop can reach: overlays are created in the
  order of their numbers; with \<^verbatim>\<open>overlay_open\<close> set, at least two attempts were counted
  and the active overlay is the only overlay window; with it unset there is none.
\<close>

definition guard_inv :: "root_state \<Rightarrow> bool" where
  "guard_inv rt =
     (0 \<le> attempts rt \<and> opened (ui rt) = [0..<created rt] \<and>
      (if overlay_open rt then
         2 \<le> attempts rt \<and>
         (case active_overlay rt of
            None \<Rightarrow> False
          | Some n \<Rightarrow> n < created rt \<and> overlays rt = [n])
       else active_overlay rt = None \<and> overlays rt = []))"

text \<open>A close or minimize attempt: the close button, or an unmap in the iconic state.\<close>

fun is_attempt :: "event \<Rightarrow> bool" where
  "is_attempt (CloseAttempt r) = True"
| "is_attempt (Unmap st r) = (st = ''iconic'')"
| "is_attempt (FinishTimer n) = False"

section \<open>IP geolocation\<close>

text \<open>
  The value \<^verbatim>\<open>json.loads\<close> returns; \<open>JNull\<close> is \<^verbatim>\<open>None\<close>. Only whether a number is zero
  matters to the program, so numbers are integers.
\<close>

datatype json =
    JNull
  | JBool bool
  | JNum int
  | JStr string
  | JArr "json list"
  | JObj "(string \<times> json) list"

text \<open>
  What one request does: \<^verbatim>\<open>urlopen\<close> or \<^verbatim>\<open>read\<close> raises (timeout, provider
  unavailable, HTTP error), or a body arrives, on which \<^verbatim>\<open>json.loads\<close> raises
  (\<open>Body None\<close>) or returns a value.
\<close>

datatype response = Unavailable | Body "json option"

fun truthy :: "json \<Rightarrow> bool" where
  "truthy JNull = False"
| "truthy (JBool b) = b"
| "truthy (JNum n) = (n \<noteq> 0)"
| "truthy (JStr s) = (s \<noteq> [])"
| "truthy (JArr xs) = (xs \<noteq> [])"
| "truthy (JObj kvs) = (kvs \<noteq> [])"

definition py_or :: "json \<Rightarrow> json \<Rightarrow> json" where
  "py_or a b = (if truthy a then a else b)"

definition dict_get :: "(string \<times> json) list \<Rightarrow> string \<Rightarrow> json" where
  "dict_get d k = (case map_of d k of None \<Rightarrow> JNull | Some v \<Rightarrow> v)"

text \<open>\<^verbatim>\<open>v.strip()\<close>: only a string has the method.\<close>

fun strip_value :: "json \<Rightarrow> py_error + string" where
  "strip_value (JStr s) = Inr (py_strip s)"
| "strip_value v = Inl AttributeError"

text \<open>
  The body of the \<^verbatim>\<open>try\<close> for one provider: \<open>Inl\<close> is an exception raised inside it,
  \<open>Inr None\<close> means that the body came to its end without returning, \<open>Inr (Some r)\<close>
  that it returned \<open>r\<close>.
\<close>

definition try_provider :: "response \<Rightarrow> py_error + (string \<times> string) option" where
  "try_provider resp =
     (case resp of
        Unavailable \<Rightarrow> Inl URLError
      | Body parsed \<Rightarrow>
          (let data = (case parsed of None \<Rightarrow> JObj [] | Some j \<Rightarrow> j) in
           case data of
             JObj d \<Rightarrow>
               (case strip_value (py_or (py_or (dict_get d ''city'') (dict_get d ''region''))
                                       (JStr [])) of
                  Inl e \<Rightarrow> Inl e
                | Inr city \<Rightarrow>
                    (case strip_value
                            (py_or (py_or (dict_get d ''country_name'') (dict_get d ''country''))
                                   (JStr [])) of
                       Inl e \<Rightarrow> Inl e
                     | Inr country \<Rightarrow>
                         if city \<noteq> [] \<and> country \<noteq> [] then Inr (Some (city, country))
                         else if country \<noteq> [] then Inr (Some ([], country))
                         else Inr None))
           | _ \<Rightarrow> Inl AttributeError))"

definition services :: "string list" where
  "services = [''https://ipapi.co/json/'', ''https://ipinfo.io/json'', ''https://ipwho.is/'']"

text \<open>
  The loop \<^verbatim>\<open>for url in services: try: ... except Exception: continue\<close>, followed by
  \<^verbatim>\<open>return "", "Unknown"\<close>. \<open>net url\<close> is what the request to \<open>url\<close> does. The loop
  returns the URLs requested, in order, and the value returned.
\<close>

fun fetch_loop :: "(string \<Rightarrow> response) \<Rightarrow> string list \<Rightarrow> string list \<times> (string \<times> string)" where
  "fetch_loop net [] = ([], ([], ''Unknown''))"
| "fetch_loop net (url # urls) =
     (case try_provider (net url) of
        Inl e \<Rightarrow> (let (req, r) = fetch_loop net urls in (url # req, r))
      | Inr None \<Rightarrow> (let (req, r) = fetch_loop net urls in (url # req, r))
      | Inr (Some r) \<Rightarrow> ([url], r))"

text \<open>
  \<^verbatim>\<open>fetch_ip_location\<close>: the URLs requested and the result, \<open>Inl\<close> for an exception
  that reaches the caller.
\<close>

definition fetch_ip_location ::
  "(string \<Rightarrow> response) \<Rightarrow> string list \<times> (py_error + string \<times> string)" where
  "fetch_ip_location net = (let (req, r) = fetch_loop net services in (req, Inr r))"

text \<open>A provider fails when its request gives no result: it raised, or named no country.\<close>

definition provider_fails :: "response \<Rightarrow> bool" where
  "provider_fails resp = (case try_provider resp of Inr (Some r) \<Rightarrow> False | _ \<Rightarrow> True)"

section \<open>Application set-up\<close>

text \<open>
  What \<^verbatim>\<open>run_app\<close> builds before the event loop: the global \<^verbatim>\<open>SECRET_CODE\<close>,
  regenerated from the draw \<open>r\<close>, the helpers made from it with the shuffle \<open>shuffled\<close>,
  and the attributes of the main window. The Emergency button calls
  \<^verbatim>\<open>emergency_quiz_flow(root, SECRET_CODE)\<close> with the global read at the click.
\<close>

record app =
  SECRET_CODE :: string
  helpers :: secret_helpers
  root :: root_state

definition run_app :: "int \<Rightarrow> nat list \<Rightarrow> app" where
  "run_app r shuffled =
     (let code = new_secret_code r in
      \<lparr>SECRET_CODE = code, helpers = SecretHelpers_init code shuffled, root = initial_root\<rparr>)"

definition emergency_button ::
  "app \<Rightarrow> bool \<Rightarrow> nat list \<Rightarrow> (nat \<Rightarrow> string option) \<Rightarrow> string option
   \<Rightarrow> py_error + ui_action list \<times> outcome" where
  "emergency_button a confirm idxs answers code =
     emergency_quiz_flow (SECRET_CODE a) confirm idxs answers code"

text \<open>
  The overlay of two patterns, as the specification words it: the character of the
  first pattern wherever it is not \<open>*\<close>, and that of the second elsewhere.
\<close>

definition overlay_patterns :: "string \<Rightarrow> string \<Rightarrow> string" where
  "overlay_patterns p q = map2 (\<lambda>a b. if a \<noteq> CHR ''*'' then a else b) p q"

section \<open>The secret code\<close>

declare dec_digits.simps [simp del]

lemma digit_char_is_digit: "d < 10 \<Longrightarrow> is_ascii_digit (digit_char d)"
  by (simp add: digit_char_def is_ascii_digit_def)

lemma digit_char_val: "d < 10 \<Longrightarrow> (of_char (digit_char d) :: nat) - 48 = d"
  by (simp add: digit_char_def)

lemma digit_char_of_char:
  "is_ascii_digit c \<Longrightarrow> digit_char ((of_char c :: nat) - 48) = c \<and> (of_char c :: nat) - 48 < 10"
  by (auto simp: is_ascii_digit_def digit_char_def)

lemma digit_char_numerals:
  "digit_char 0 = CHR ''0''" "digit_char 1 = CHR ''1''" "digit_char 2 = CHR ''2''"
  "digit_char 3 = CHR ''3''" "digit_char 4 = CHR ''4''" "digit_char 5 = CHR ''5''"
  "digit_char 6 = CHR ''6''" "digit_char 7 = CHR ''7''" "digit_char 8 = CHR ''8''"
  "digit_char 9 = CHR ''9''"
  by (simp_all add: digit_char_def) code_simp+

lemma dec_digits_1: "n < 10 \<Longrightarrow> dec_digits n = [digit_char n]"
  by (subst dec_digits.simps) simp

lemma dec_digits_step:
  "10 \<le> n \<Longrightarrow> dec_digits n = dec_digits (n div 10) @ [digit_char (n mod 10)]"
  by (subst dec_digits.simps) simp

lemma div_100: "(n::nat) div 100 = n div 10 div 10"
  by (simp add: div_mult2_eq [symmetric])

lemma div_1000: "(n::nat) div 1000 = n div 10 div 10 div 10"
  by (simp add: div_mult2_eq [symmetric])

lemma dec_digits_2:
  "10 \<le> n \<Longrightarrow> n < 100 \<Longrightarrow> dec_digits n = [digit_char (n div 10), digit_char (n mod 10)]"
  by (simp add: dec_digits_step dec_digits_1)

lemma dec_digits_3:
  assumes "100 \<le> n" "n < 1000"
  shows "dec_digits n =
    [digit_char (n div 100), digit_char (n div 10 mod 10), digit_char (n mod 10)]"
proof -
  from assms have "10 \<le> n div 10" "n div 10 < 100" by auto
  then have "dec_digits (n div 10) = [digit_char (n div 10 div 10), digit_char (n div 10 mod 10)]"
    by (rule dec_digits_2)
  moreover have "dec_digits n = dec_digits (n div 10) @ [digit_char (n mod 10)]"
    using assms by (intro dec_digits_step) simp
  ultimately show ?thesis by (simp add: div_100)
qed

lemma dec_digits_4:
  assumes "1000 \<le> n" "n < 10000"
  shows "dec_digits n =
    [digit_char (n div 1000), digit_char (n div 100 mod 10), digit_char (n div 10 mod 10),
     digit_char (n mod 10)]"
proof -
  from assms have "100 \<le> n div 10" "n div 10 < 1000" by auto
  then have "dec_digits (n div 10) =
      [digit_char (n div 10 div 100), digit_char (n div 10 div 10 mod 10),
       digit_char (n div 10 mod 10)]"
    by (rule dec_digits_3)
  moreover have "dec_digits n = dec_digits (n div 10) @ [digit_char (n mod 10)]"
    using assms by (intro dec_digits_step) simp
  ultimately show ?thesis by (simp add: div_100 div_1000)
qed

lemma zero_pad_4_1: "zero_pad 4 [a] = [CHR ''0'', CHR ''0'', CHR ''0'', a]"
  by (simp add: zero_pad_def numeral_3_eq_3)

lemma zero_pad_4_2: "zero_pad 4 [a, b] = [CHR ''0'', CHR ''0'', a, b]"
  by (simp add: zero_pad_def numeral_2_eq_2)

lemma zero_pad_4_3: "zero_pad 4 [a, b, c] = [CHR ''0'', a, b, c]"
  by (simp add: zero_pad_def)

lemma zero_pad_4_4: "zero_pad 4 [a, b, c, d] = [a, b, c, d]"
  by (simp add: zero_pad_def)

lemma dec_digits_lt_10000:
  assumes "n < 10000"
  shows "zero_pad 4 (dec_digits n) =
    [digit_char (n div 1000), digit_char (n div 100 mod 10), digit_char (n div 10 mod 10),
     digit_char (n mod 10)]"
proof -
  consider "n < 10" | "10 \<le> n" "n < 100" | "100 \<le> n" "n < 1000" | "1000 \<le> n" "n < 10000"
    using assms by linarith
  then show ?thesis
  proof cases
    case 1
    then show ?thesis by (simp add: dec_digits_1 zero_pad_4_1 digit_char_numerals)
  next
    case 2
    then show ?thesis by (simp add: dec_digits_2 zero_pad_4_2 digit_char_numerals)
  next
    case 3
    then show ?thesis by (simp add: dec_digits_3 zero_pad_4_3 digit_char_numerals)
  next
    case 4
    then show ?thesis by (simp add: dec_digits_4 zero_pad_4_4)
  qed
qed

lemma decimal_value_4:
  "decimal_value [a, b, c, d] =
     1000 * (of_char a - 48) + 100 * (of_char b - 48) + 10 * (of_char c - 48) + (of_char d - 48)"
  by (simp add: decimal_value_def)

lemma new_secret_code_digits:
  assumes "0 \<le> r" "r \<le> 9999"
  shows "new_secret_code r =
    [digit_char (nat r div 1000), digit_char (nat r div 100 mod 10),
     digit_char (nat r div 10 mod 10), digit_char (nat r mod 10)]"
  using assms by (simp add: new_secret_code_def format_04d_def dec_digits_lt_10000)

lemma new_secret_code_four_digits:
  assumes "0 \<le> r" "r \<le> 9999"
  shows "four_digits (new_secret_code r)"
  using assms by (simp add: new_secret_code_digits four_digits_def digit_char_is_digit)

lemma digits_recompose:
  fixes n :: nat
  shows "1000 * (n div 1000) + 100 * (n div 100 mod 10) + 10 * (n div 10 mod 10) + n mod 10 = n"
proof -
  define q1 q2 q3 where "q1 = n div 10" and "q2 = q1 div 10" and "q3 = q2 div 10"
  have a: "n = 10 * q1 + n mod 10" by (simp add: q1_def)
  have b: "q1 = 10 * q2 + q1 mod 10" by (simp add: q2_def)
  have c: "q2 = 10 * q3 + q2 mod 10" by (simp add: q3_def)
  have "1000 * q3 + 100 * (q2 mod 10) + 10 * (q1 mod 10) + n mod 10 = n"
    using a b c by linarith
  then show ?thesis by (simp add: div_100 div_1000 q1_def q2_def q3_def)
qed

lemma div_mod_10: "d < 10 \<Longrightarrow> (10 * q + d) div 10 = q \<and> (10 * q + d) mod 10 = (d::nat)"
  by simp

lemma digits_decompose:
  fixes va vb vc vd :: nat
  assumes "va < 10" "vb < 10" "vc < 10" "vd < 10"
  shows "(1000 * va + 100 * vb + 10 * vc + vd) div 1000 = va \<and>
     (1000 * va + 100 * vb + 10 * vc + vd) div 100 mod 10 = vb \<and>
     (1000 * va + 100 * vb + 10 * vc + vd) div 10 mod 10 = vc \<and>
     (1000 * va + 100 * vb + 10 * vc + vd) mod 10 = vd"
proof -
  define n where "n = 1000 * va + 100 * vb + 10 * vc + vd"
  define q1 where "q1 = 100 * va + 10 * vb + vc"
  define q2 where "q2 = 10 * va + vb"
  have n1: "n = 10 * q1 + vd" by (simp add: n_def q1_def)
  have n2: "q1 = 10 * q2 + vc" by (simp add: q1_def q2_def)
  have e1: "n div 10 = q1" "n mod 10 = vd"
    using div_mod_10 [OF assms(4), of q1] by (simp_all add: n1)
  have e2: "q1 div 10 = q2" "q1 mod 10 = vc"
    using div_mod_10 [OF assms(3), of q2] by (simp_all add: n2)
  have e3: "q2 div 10 = va" "q2 mod 10 = vb"
    using div_mod_10 [OF assms(2), of va] by (simp_all add: q2_def)
  have "n div 1000 = va \<and> n div 100 mod 10 = vb \<and> n div 10 mod 10 = vc \<and> n mod 10 = vd"
    by (simp add: div_100 div_1000 e1 e2 e3)
  then show ?thesis unfolding n_def .
qed

lemma new_secret_code_value:
  assumes "0 \<le> r" "r \<le> 9999"
  shows "int (decimal_value (new_secret_code r)) = r"
proof -
  define n where "n = nat r"
  have n: "n < 10000" "r = int n" using assms by (auto simp: n_def)
  have lt: "n div 1000 < 10" using n(1) by (simp add: less_mult_imp_div_less)
  have code: "new_secret_code r =
      [digit_char (n div 1000), digit_char (n div 100 mod 10), digit_char (n div 10 mod 10),
       digit_char (n mod 10)]"
    using assms by (simp add: new_secret_code_digits n_def)
  have "decimal_value (new_secret_code r) =
      1000 * (n div 1000) + 100 * (n div 100 mod 10) + 10 * (n div 10 mod 10) + n mod 10"
    unfolding code decimal_value_4 using lt by (simp add: digit_char_val)
  also have "\<dots> = n" by (rule digits_recompose)
  finally show ?thesis using n by simp
qed

lemma length_4_cases:
  assumes "length s = 4"
  obtains a b c d where "s = [a, b, c, d]"
proof -
  from assms have "length s = Suc (Suc (Suc (Suc 0)))" by simp
  then show ?thesis using that by (auto simp: length_Suc_conv)
qed

lemma four_digits_code:
  assumes "four_digits s"
  shows "new_secret_code (int (decimal_value s)) = s \<and> decimal_value s \<le> 9999"
proof -
  from assms have "length s = 4" by (simp add: four_digits_def)
  then obtain a b c d where s: "s = [a, b, c, d]" by (rule length_4_cases)
  define va vb vc vd where "va = (of_char a :: nat) - 48" and "vb = (of_char b :: nat) - 48"
    and "vc = (of_char c :: nat) - 48" and "vd = (of_char d :: nat) - 48"
  have isd: "is_ascii_digit a" "is_ascii_digit b" "is_ascii_digit c" "is_ascii_digit d"
    using assms by (simp_all add: s four_digits_def)
  have dig: "va < 10" "vb < 10" "vc < 10" "vd < 10"
    using isd by (simp_all add: digit_char_of_char va_def vb_def vc_def vd_def)
  have ch: "digit_char va = a" "digit_char vb = b" "digit_char vc = c" "digit_char vd = d"
    using isd by (simp_all add: digit_char_of_char va_def vb_def vc_def vd_def)
  define n where "n = 1000 * va + 100 * vb + 10 * vc + vd"
  have dv: "decimal_value s = n"
    by (simp add: s decimal_value_4 n_def va_def vb_def vc_def vd_def)
  have n: "n \<le> 9999" using dig unfolding n_def by linarith
  have d: "n div 1000 = va" "n div 100 mod 10 = vb" "n div 10 mod 10 = vc" "n mod 10 = vd"
    using digits_decompose [OF dig] unfolding n_def by simp_all
  have "new_secret_code (int n) = [a, b, c, d]"
    using n by (simp add: new_secret_code_digits d ch)
  then show ?thesis using dv n s by simp
qed

lemma four_digits_unique_draw:
  assumes "four_digits s"
  shows "\<exists>!r. 0 \<le> r \<and> r \<le> 9999 \<and> new_secret_code r = s"
proof (rule ex1I [of _ "int (decimal_value s)"])
  show "0 \<le> int (decimal_value s) \<and> int (decimal_value s) \<le> 9999 \<and>
        new_secret_code (int (decimal_value s)) = s"
    using four_digits_code [OF assms] by simp
next
  fix r assume "0 \<le> r \<and> r \<le> 9999 \<and> new_secret_code r = s"
  then show "r = int (decimal_value s)"
    using new_secret_code_value [of r] by simp
qed

text \<open>
  Claim C6. For every draw \<open>r\<close> of \<^verbatim>\<open>random.randint(0, 9999)\<close> the generator returns
  a string of exactly four ASCII digits, the zero-padded decimal numeral of \<open>r\<close>; and
  every four-digit string is the code of exactly one draw of that range, so that a
  uniform draw gives a uniformly distributed code over 0000 to 9999.
\<close>

theorem new_secret_code_four_digit_uniform:
  "(0 \<le> r \<and> r \<le> 9999 \<longrightarrow>
      length (new_secret_code r) = 4 \<and> list_all is_ascii_digit (new_secret_code r) \<and>
      int (decimal_value (new_secret_code r)) = r) \<and>
   (four_digits s \<longrightarrow> (\<exists>!r. 0 \<le> r \<and> r \<le> 9999 \<and> new_secret_code r = s))"
  using new_secret_code_four_digits [of r] new_secret_code_value [of r]
    four_digits_unique_draw [of s]
  by (simp add: four_digits_def)

theorem new_secret_code_four_digit_uniform_witness:
  "(0::int) \<le> 42 \<and> (42::int) \<le> 9999 \<and> new_secret_code 42 = ''0042'' \<and>
   length (new_secret_code 42) = 4 \<and> list_all is_ascii_digit (new_secret_code 42) \<and>
   int (decimal_value (new_secret_code 42)) = 42 \<and>
   four_digits ''4821'' \<and> (\<exists>!r. 0 \<le> r \<and> r \<le> 9999 \<and> new_secret_code r = ''4821'')"
proof -
  have c: "new_secret_code 42 = ''0042''"
    by (simp add: new_secret_code_digits digit_char_numerals)
  have f: "four_digits ''4821''"
    by (simp add: four_digits_def is_ascii_digit_def)
  show ?thesis
    using new_secret_code_four_digit_uniform [of 42 "''4821''"] c f by simp
qed

section \<open>Positions and patterns\<close>

lemma is_shuffle_cases:
  assumes "is_shuffle ps"
  obtains a b c d where "ps = [a, b, c, d]" "distinct [a, b, c, d]"
    "{a, b, c, d} = {0, 1, 2, 3::nat}"
proof -
  from assms have d: "distinct ps" and s: "set ps = {0, 1, 2, 3}"
    by (simp_all add: is_shuffle_def)
  have "length ps = card (set ps)" using d by (simp add: distinct_card)
  also have "\<dots> = 4" by (simp add: s)
  finally obtain a b c d where ps: "ps = [a, b, c, d]" by (rule length_4_cases)
  show ?thesis using that [OF ps] d s by (simp add: ps)
qed

lemma init_positions:
  assumes "distinct [a, b, c, d]"
  shows "clue_positions (SecretHelpers_init code [a, b, c, d]) = sort [a, b]"
    and "trivia_positions (SecretHelpers_init code [a, b, c, d]) = sort [c, d]"
    and "secret (SecretHelpers_init code [a, b, c, d]) = code"
proof -
  have t: "take 2 [a, b, c, d] = [a, b]" by (simp add: numeral_2_eq_2)
  have s: "set (sort [a, b]) = {a, b}" by (simp only: set_sort) simp
  have f: "filter (\<lambda>p. p \<notin> {a, b}) [a, b, c, d] = [c, d]" using assms by auto
  show "clue_positions (SecretHelpers_init code [a, b, c, d]) = sort [a, b]"
    by (simp add: SecretHelpers_init_def Let_def t)
  show "trivia_positions (SecretHelpers_init code [a, b, c, d]) = sort [c, d]"
    unfolding SecretHelpers_init_def Let_def t s f by simp
  show "secret (SecretHelpers_init code [a, b, c, d]) = code"
    by (simp add: SecretHelpers_init_def Let_def)
qed

lemma init_partition:
  assumes "is_shuffle shuffled"
  shows "length (clue_positions (SecretHelpers_init code shuffled)) = 2"
    and "length (trivia_positions (SecretHelpers_init code shuffled)) = 2"
    and "distinct (clue_positions (SecretHelpers_init code shuffled))"
    and "distinct (trivia_positions (SecretHelpers_init code shuffled))"
    and "set (clue_positions (SecretHelpers_init code shuffled)) \<inter>
         set (trivia_positions (SecretHelpers_init code shuffled)) = {}"
    and "set (clue_positions (SecretHelpers_init code shuffled)) \<union>
         set (trivia_positions (SecretHelpers_init code shuffled)) = {0, 1, 2, 3}"
proof -
  from assms obtain a b c d where ps: "shuffled = [a, b, c, d]"
    and d: "distinct [a, b, c, d]" and s: "{a, b, c, d} = {0, 1, 2, 3::nat}"
    by (rule is_shuffle_cases)
  note pos = init_positions [OF d, of code]
  have sc: "set (sort [a, b]) = {a, b}" and st: "set (sort [c, d]) = {c, d}"
    by (simp_all only: set_sort) simp_all
  show "length (clue_positions (SecretHelpers_init code shuffled)) = 2"
    unfolding ps pos by (simp only: length_sort) simp
  show "length (trivia_positions (SecretHelpers_init code shuffled)) = 2"
    unfolding ps pos by (simp only: length_sort) simp
  show "distinct (clue_positions (SecretHelpers_init code shuffled))"
    unfolding ps pos using d by (simp only: distinct_sort) simp
  show "distinct (trivia_positions (SecretHelpers_init code shuffled))"
    unfolding ps pos using d by (simp only: distinct_sort) simp
  show "set (clue_positions (SecretHelpers_init code shuffled)) \<inter>
         set (trivia_positions (SecretHelpers_init code shuffled)) = {}"
    unfolding ps pos sc st using d by auto
  show "set (clue_positions (SecretHelpers_init code shuffled)) \<union>
         set (trivia_positions (SecretHelpers_init code shuffled)) = {0, 1, 2, 3}"
  proof -
    have "{a, b} \<union> {c, d} = {a, b, c, d}" by auto
    then show ?thesis unfolding ps pos sc st using s by (simp only:)
  qed
qed

lemma clue_finder_keeps_object: "fst (clue_finder h) = h"
  by (simp add: clue_finder_def split: sum.splits)

lemma trivia_helper_keeps_object: "fst (trivia_helper h idxs answers) = h"
  by (simp add: trivia_helper_def Let_def split: sum.splits prod.splits)

lemma shuffle_example: "is_shuffle [3, 0, 2, 1]"
  by (auto simp: is_shuffle_def)

text \<open>
  Claim C7. For every shuffle of the four positions, the clue positions and the trivia
  positions are two-element sets of positions, disjoint, with union \<open>{0,1,2,3}\<close>; and the
  two methods of the object return it with both position lists unchanged, so the
  partition is fixed once the object is built.
\<close>

theorem positions_partition:
  assumes "is_shuffle shuffled"
  shows "(let h = SecretHelpers_init code shuffled in
          card (set (clue_positions h)) = 2 \<and> card (set (trivia_positions h)) = 2 \<and>
          set (clue_positions h) \<inter> set (trivia_positions h) = {} \<and>
          set (clue_positions h) \<union> set (trivia_positions h) = {0, 1, 2, 3} \<and>
          clue_positions (fst (clue_finder h)) = clue_positions h \<and>
          trivia_positions (fst (clue_finder h)) = trivia_positions h \<and>
          clue_positions (fst (trivia_helper h idxs answers)) = clue_positions h \<and>
          trivia_positions (fst (trivia_helper h idxs answers)) = trivia_positions h)"
proof -
  note p = init_partition [OF assms, of code]
  have "card (set (clue_positions (SecretHelpers_init code shuffled))) = 2"
    using p(1, 3) by (simp add: distinct_card)
  moreover have "card (set (trivia_positions (SecretHelpers_init code shuffled))) = 2"
    using p(2, 4) by (simp add: distinct_card)
  ultimately show ?thesis
    using p(5, 6) by (simp add: Let_def clue_finder_keeps_object trivia_helper_keeps_object)
qed

theorem positions_partition_witness:
  "is_shuffle [3, 0, 2, 1] \<and>
   clue_positions (SecretHelpers_init ''4821'' [3, 0, 2, 1]) = [0, 3] \<and>
   trivia_positions (SecretHelpers_init ''4821'' [3, 0, 2, 1]) = [1, 2] \<and>
   set (clue_positions (SecretHelpers_init ''4821'' [3, 0, 2, 1])) \<inter>
     set (trivia_positions (SecretHelpers_init ''4821'' [3, 0, 2, 1])) = {} \<and>
   set (clue_positions (SecretHelpers_init ''4821'' [3, 0, 2, 1])) \<union>
     set (trivia_positions (SecretHelpers_init ''4821'' [3, 0, 2, 1])) = {0, 1, 2, 3}"
proof -
  have d: "distinct [3, 0, 2, 1::nat]" by simp
  have pos: "clue_positions (SecretHelpers_init ''4821'' [3, 0, 2, 1]) = [0, 3]"
      "trivia_positions (SecretHelpers_init ''4821'' [3, 0, 2, 1]) = [1, 2]"
    by code_simp+
  show ?thesis
    using positions_partition [OF shuffle_example, of "''4821''"] pos shuffle_example
    by (simp add: Let_def)
qed

lemma reveal_loop_result:
  assumes "list_all (\<lambda>p. p < length s) ps" "length sec = length s"
  shows "reveal_loop sec ps s =
         Inr (map (\<lambda>i. if i \<in> set ps then sec ! i else s ! i) [0..<length s])"
  using assms
proof (induction ps arbitrary: s)
  case Nil
  then show ?case by (simp add: map_nth)
next
  case (Cons pos ps)
  let ?s = "s[pos := sec ! pos]"
  from Cons.prems have pos: "pos < length s" and rest: "list_all (\<lambda>p. p < length ?s) ps"
    and len: "length sec = length ?s"
    by simp_all
  have "reveal_loop sec (pos # ps) s = reveal_loop sec ps ?s"
    using pos Cons.prems(2) by simp
  also have "\<dots> = Inr (map (\<lambda>i. if i \<in> set ps then sec ! i else ?s ! i) [0..<length ?s])"
    by (rule Cons.IH [OF rest len])
  also have "map (\<lambda>i. if i \<in> set ps then sec ! i else ?s ! i) [0..<length ?s] =
      map (\<lambda>i. if i \<in> set (pos # ps) then sec ! i else s ! i) [0..<length s]"
    by (rule nth_equalityI) (auto simp: nth_list_update)
  finally show ?case .
qed

lemma stars_nth: "i < 4 \<Longrightarrow> ''****'' ! i = CHR ''*''"
proof -
  assume "i < 4"
  then have "i = 0 \<or> i = 1 \<or> i = 2 \<or> i = 3" by linarith
  then show ?thesis by auto
qed

lemma reveal_pattern_result:
  assumes "list_all (\<lambda>p. p < 4) ps" "length sec = 4"
  shows "reveal_pattern sec ps =
         Inr (map (\<lambda>i. if i \<in> set ps then sec ! i else CHR ''*'') [0..<4])"
proof -
  have l4: "length ''****'' = 4" by simp
  have "reveal_loop sec ps ''****'' =
        Inr (map (\<lambda>i. if i \<in> set ps then sec ! i else ''****'' ! i) [0..<length ''****''])"
  proof (rule reveal_loop_result)
    show "list_all (\<lambda>p. p < length ''****'') ps" using assms(1) by (simp only: l4)
    show "length sec = length ''****''" using assms(2) by (simp only: l4)
  qed
  then have "reveal_loop sec ps ''****'' =
        Inr (map (\<lambda>i. if i \<in> set ps then sec ! i else ''****'' ! i) [0..<4])"
    by (simp only: l4)
  moreover have "map (\<lambda>i. if i \<in> set ps then sec ! i else ''****'' ! i) [0..<4] =
      map (\<lambda>i. if i \<in> set ps then sec ! i else CHR ''*'') [0..<4]"
  proof (rule map_cong [OF refl])
    fix i :: nat assume "i \<in> set [0..<4]"
    then have "i < 4" by (simp only: set_upt atLeastLessThan_iff)
    then show "(if i \<in> set ps then sec ! i else ''****'' ! i) =
               (if i \<in> set ps then sec ! i else CHR ''*'')"
      by (simp only: stars_nth)
  qed
  ultimately show ?thesis by (simp only: reveal_pattern_def)
qed

lemma init_positions_in_range:
  assumes "is_shuffle shuffled"
  shows "list_all (\<lambda>p. p < 4) (clue_positions (SecretHelpers_init code shuffled))"
    and "list_all (\<lambda>p. p < 4) (trivia_positions (SecretHelpers_init code shuffled))"
proof -
  have "set (clue_positions (SecretHelpers_init code shuffled)) \<subseteq> {0, 1, 2, 3}"
    and "set (trivia_positions (SecretHelpers_init code shuffled)) \<subseteq> {0, 1, 2, 3}"
    using init_partition(6) [OF assms, of code] by blast+
  then show "list_all (\<lambda>p. p < 4) (clue_positions (SecretHelpers_init code shuffled))"
    and "list_all (\<lambda>p. p < 4) (trivia_positions (SecretHelpers_init code shuffled))"
    by (auto simp: list_all_iff)
qed

lemma init_secret: "secret (SecretHelpers_init code shuffled) = code"
  by (simp add: SecretHelpers_init_def Let_def)

text \<open>
  Claim C8. The pattern the Clue Finder shows has four characters, the secret's own
  character at every clue position and \<open>*\<close> at every other; the call changes nothing,
  so a second call shows the same pattern. For the secret 4821 with clue positions
  0 and 3 the pattern is \<open>4**1\<close> (and the trivia pattern \<open>*82*\<close>).
\<close>

theorem clue_pattern_masks:
  assumes "is_shuffle shuffled" "length code = 4"
  shows "(let h = SecretHelpers_init code shuffled in
          \<exists>p. reveal_pattern (secret h) (clue_positions h) = Inr p \<and>
              length p = 4 \<and>
              (\<forall>i < 4. p ! i = (if i \<in> set (clue_positions h) then code ! i else CHR ''*'')) \<and>
              clue_finder h =
                (h, Inr [ShowInfo ''Clue Finder'' (''Clue revealed: '' @ p),
                         BringToFront RootWindow]) \<and>
              clue_finder (fst (clue_finder h)) = clue_finder h) \<and>
         reveal_pattern ''4821'' [0, 3] = Inr ''4**1'' \<and>
         reveal_pattern ''4821'' [1, 2] = Inr ''*82*''"
proof -
  let ?h = "SecretHelpers_init code shuffled"
  let ?p = "map (\<lambda>i. if i \<in> set (clue_positions ?h) then code ! i else CHR ''*'') [0..<4]"
  have r: "reveal_pattern (secret ?h) (clue_positions ?h) = Inr ?p"
    using init_positions_in_range(1) [OF assms(1), of code] assms(2)
    by (simp add: init_secret reveal_pattern_result)
  have l: "length ?p = 4" by simp
  have n: "\<forall>i < 4. ?p ! i = (if i \<in> set (clue_positions ?h) then code ! i else CHR ''*'')"
    by simp
  have c: "clue_finder ?h =
      (?h, Inr [ShowInfo ''Clue Finder'' (''Clue revealed: '' @ ?p), BringToFront RootWindow])"
    by (simp add: clue_finder_def r)
  have i: "clue_finder (fst (clue_finder ?h)) = clue_finder ?h"
    by (simp add: clue_finder_keeps_object)
  have e1: "reveal_pattern ''4821'' [0, 3] = Inr ''4**1''" by code_simp
  have e2: "reveal_pattern ''4821'' [1, 2] = Inr ''*82*''" by code_simp
  from r l n c i have "\<exists>p. reveal_pattern (secret ?h) (clue_positions ?h) = Inr p \<and>
              length p = 4 \<and>
              (\<forall>i < 4. p ! i = (if i \<in> set (clue_positions ?h) then code ! i else CHR ''*'')) \<and>
              clue_finder ?h =
                (?h, Inr [ShowInfo ''Clue Finder'' (''Clue revealed: '' @ p),
                         BringToFront RootWindow]) \<and>
              clue_finder (fst (clue_finder ?h)) = clue_finder ?h"
    by blast
  then show ?thesis using e1 e2 by (simp add: Let_def)
qed

theorem clue_pattern_masks_witness:
  "is_shuffle [3, 0, 2, 1] \<and> length ''4821'' = 4 \<and>
   clue_positions (SecretHelpers_init ''4821'' [3, 0, 2, 1]) = [0, 3] \<and>
   reveal_pattern ''4821'' [0, 3] = Inr ''4**1'' \<and>
   clue_finder (SecretHelpers_init ''4821'' [3, 0, 2, 1]) =
     (SecretHelpers_init ''4821'' [3, 0, 2, 1],
      Inr [ShowInfo ''Clue Finder'' ''Clue revealed: 4**1'', BringToFront RootWindow]) \<and>
   clue_finder (fst (clue_finder (SecretHelpers_init ''4821'' [3, 0, 2, 1]))) =
     clue_finder (SecretHelpers_init ''4821'' [3, 0, 2, 1])"
proof -
  have pos: "clue_positions (SecretHelpers_init ''4821'' [3, 0, 2, 1]) = [0, 3]"
    by code_simp
  have len: "length ''4821'' = 4" by simp
  have cf: "clue_finder (SecretHelpers_init ''4821'' [3, 0, 2, 1]) =
     (SecretHelpers_init ''4821'' [3, 0, 2, 1],
      Inr [ShowInfo ''Clue Finder'' ''Clue revealed: 4**1'', BringToFront RootWindow])"
    by code_simp
  have ex: "reveal_pattern ''4821'' [0, 3] = Inr ''4**1''"
    by (rule clue_pattern_masks [OF shuffle_example len, THEN conjunct2, THEN conjunct1])
  have idem: "clue_finder (fst (clue_finder (SecretHelpers_init ''4821'' [3, 0, 2, 1]))) =
     clue_finder (SecretHelpers_init ''4821'' [3, 0, 2, 1])"
    by (simp only: cf fst_conv)
  show ?thesis by (intro conjI shuffle_example len pos ex cf idem)
qed

section \<open>The two patterns together\<close>

lemma digit_char_Suc_0: "digit_char (Suc 0) = CHR ''1''"
  using digit_char_numerals(2) by simp

lemma digit_not_star: "is_ascii_digit c \<Longrightarrow> c \<noteq> CHR ''*''"
  by (auto simp: is_ascii_digit_def)

lemma overlay_patterns_nth:
  assumes "i < length p" "length q = length p"
  shows "overlay_patterns p q ! i = (if p ! i \<noteq> CHR ''*'' then p ! i else q ! i)"
  using assms by (simp add: overlay_patterns_def)

lemma overlay_of_partition:
  assumes len: "length sec = 4" and dig: "list_all is_ascii_digit sec"
    and disj: "A \<inter> B = {}" and un: "A \<union> B = {0, 1, 2, 3::nat}"
  shows "overlay_patterns
           (map (\<lambda>i. if i \<in> A then sec ! i else CHR ''*'') [0..<4])
           (map (\<lambda>i. if i \<in> B then sec ! i else CHR ''*'') [0..<4]) = sec"
    and "\<forall>i < 4. ((map (\<lambda>i. if i \<in> A then sec ! i else CHR ''*'') [0..<4]) ! i = CHR ''*'') \<noteq>
                   ((map (\<lambda>i. if i \<in> B then sec ! i else CHR ''*'') [0..<4]) ! i = CHR ''*'')"
proof -
  let ?p = "map (\<lambda>i. if i \<in> A then sec ! i else CHR ''*'') [0..<4]"
  let ?q = "map (\<lambda>i. if i \<in> B then sec ! i else CHR ''*'') [0..<4]"
  have star: "sec ! i \<noteq> CHR ''*''" if "i < 4" for i
    using dig len that by (simp add: list_all_length digit_not_star)
  have mem: "i \<in> A \<or> i \<in> B" if "i < 4" for i
  proof -
    from that have "i \<in> {0, 1, 2, 3}" by auto
    then show ?thesis using un by blast
  qed
  have excl: "\<not> (i \<in> A \<and> i \<in> B)" for i using disj by blast
  show "overlay_patterns ?p ?q = sec"
  proof (rule nth_equalityI)
    show "length (overlay_patterns ?p ?q) = length sec"
      by (simp add: overlay_patterns_def len)
  next
    fix i assume "i < length (overlay_patterns ?p ?q)"
    then have i: "i < 4" by (simp add: overlay_patterns_def)
    then have "overlay_patterns ?p ?q ! i = (if ?p ! i \<noteq> CHR ''*'' then ?p ! i else ?q ! i)"
      by (intro overlay_patterns_nth) simp_all
    then show "overlay_patterns ?p ?q ! i = sec ! i"
      using i star [OF i] mem [OF i] by auto
  qed
  show "\<forall>i < 4. (?p ! i = CHR ''*'') \<noteq> (?q ! i = CHR ''*'')"
  proof (intro allI impI)
    fix i :: nat assume i: "i < 4"
    show "(?p ! i = CHR ''*'') \<noteq> (?q ! i = CHR ''*'')"
      using i star [OF i] mem [OF i] excl [of i] by auto
  qed
qed

lemma trivia_helper_perfect:
  assumes "snd (trivia_helper h idxs answers) = Inr (5, tr)"
    and "reveal_pattern (secret h) (trivia_positions h) = Inr q"
  shows "ShowInfo ''Trivia Helper'' (''Passed! Revealed: '' @ q) \<in> set tr"
  using assms
  by (auto simp: trivia_helper_def Let_def split: sum.splits prod.splits if_splits)

text \<open>
  Claim C10. In an application built by \<^verbatim>\<open>run_app\<close>, the helpers hold the very string
  the global \<^verbatim>\<open>SECRET_CODE\<close> holds, and the Emergency button compares against it. The
  pattern \<open>p\<close> the Clue Finder shows and the pattern \<open>q\<close> a perfect Trivia score shows
  overlay to exactly that code: at each of the four positions exactly one of the two
  patterns carries \<open>*\<close>.
\<close>

theorem patterns_reconstruct_secret:
  assumes "0 \<le> r" "r \<le> 9999" "is_shuffle shuffled"
  shows "(let a = run_app r shuffled; h = helpers a in
          secret h = SECRET_CODE a \<and>
          emergency_button a confirm idxs answers code =
            emergency_quiz_flow (secret h) confirm idxs answers code \<and>
          (\<exists>p q. snd (clue_finder h) =
                    Inr [ShowInfo ''Clue Finder'' (''Clue revealed: '' @ p),
                         BringToFront RootWindow] \<and>
                 reveal_pattern (secret h) (trivia_positions h) = Inr q \<and>
                 (\<forall>tr. snd (trivia_helper h idxs' answers') = Inr (5, tr) \<longrightarrow>
                       ShowInfo ''Trivia Helper'' (''Passed! Revealed: '' @ q) \<in> set tr) \<and>
                 overlay_patterns p q = SECRET_CODE a \<and>
                 (\<forall>i < 4. (p ! i = CHR ''*'') \<noteq> (q ! i = CHR ''*''))))"
proof -
  let ?code = "new_secret_code r"
  let ?h = "SecretHelpers_init ?code shuffled"
  let ?p = "map (\<lambda>i. if i \<in> set (clue_positions ?h) then ?code ! i else CHR ''*'') [0..<4]"
  let ?q = "map (\<lambda>i. if i \<in> set (trivia_positions ?h) then ?code ! i else CHR ''*'') [0..<4]"
  have fd: "four_digits ?code" using assms(1, 2) by (rule new_secret_code_four_digits)
  then have len: "length ?code = 4" and dig: "list_all is_ascii_digit ?code"
    by (simp_all add: four_digits_def)
  have rp: "reveal_pattern (secret ?h) (clue_positions ?h) = Inr ?p"
    using init_positions_in_range(1) [OF assms(3), of ?code] len
    by (simp add: init_secret reveal_pattern_result)
  have rq: "reveal_pattern (secret ?h) (trivia_positions ?h) = Inr ?q"
    using init_positions_in_range(2) [OF assms(3), of ?code] len
    by (simp add: init_secret reveal_pattern_result)
  have cf: "snd (clue_finder ?h) =
      Inr [ShowInfo ''Clue Finder'' (''Clue revealed: '' @ ?p), BringToFront RootWindow]"
    by (simp add: clue_finder_def rp)
  have tr: "\<forall>tr. snd (trivia_helper ?h idxs' answers') = Inr (5, tr) \<longrightarrow>
      ShowInfo ''Trivia Helper'' (''Passed! Revealed: '' @ ?q) \<in> set tr"
    using trivia_helper_perfect [OF _ rq] by blast
  note part = init_partition(5, 6) [OF assms(3), of ?code]
  note ov = overlay_of_partition [OF len dig part]
  have "\<exists>p q. snd (clue_finder ?h) =
                    Inr [ShowInfo ''Clue Finder'' (''Clue revealed: '' @ p),
                         BringToFront RootWindow] \<and>
                 reveal_pattern (secret ?h) (trivia_positions ?h) = Inr q \<and>
                 (\<forall>tr. snd (trivia_helper ?h idxs' answers') = Inr (5, tr) \<longrightarrow>
                       ShowInfo ''Trivia Helper'' (''Passed! Revealed: '' @ q) \<in> set tr) \<and>
                 overlay_patterns p q = ?code \<and>
                 (\<forall>i < 4. (p ! i = CHR ''*'') \<noteq> (q ! i = CHR ''*''))"
    using cf rq tr ov by blast
  then show ?thesis
    by (simp add: run_app_def Let_def init_secret emergency_button_def)
qed

theorem patterns_reconstruct_secret_witness:
  "(0::int) \<le> 4821 \<and> (4821::int) \<le> 9999 \<and> is_shuffle [3, 0, 2, 1] \<and>
   SECRET_CODE (run_app 4821 [3, 0, 2, 1]) = ''4821'' \<and>
   secret (helpers (run_app 4821 [3, 0, 2, 1])) = ''4821'' \<and>
   reveal_pattern ''4821'' (clue_positions (helpers (run_app 4821 [3, 0, 2, 1]))) = Inr ''4**1'' \<and>
   reveal_pattern ''4821'' (trivia_positions (helpers (run_app 4821 [3, 0, 2, 1]))) = Inr ''*82*'' \<and>
   overlay_patterns ''4**1'' ''*82*'' = ''4821'' \<and>
   (\<exists>p q. snd (clue_finder (helpers (run_app 4821 [3, 0, 2, 1]))) =
             Inr [ShowInfo ''Clue Finder'' (''Clue revealed: '' @ p), BringToFront RootWindow] \<and>
          reveal_pattern ''4821'' (trivia_positions (helpers (run_app 4821 [3, 0, 2, 1]))) = Inr q \<and>
          overlay_patterns p q = ''4821'')"
proof -
  have code: "new_secret_code 4821 = ''4821''"
    by (simp add: new_secret_code_digits digit_char_numerals digit_char_Suc_0)
  have app: "run_app 4821 [3, 0, 2, 1] =
      \<lparr>SECRET_CODE = ''4821'', helpers = SecretHelpers_init ''4821'' [3, 0, 2, 1],
       root = initial_root\<rparr>"
    by (simp add: run_app_def Let_def code)
  have pos: "clue_positions (SecretHelpers_init ''4821'' [3, 0, 2, 1]) = [0, 3]"
      "trivia_positions (SecretHelpers_init ''4821'' [3, 0, 2, 1]) = [1, 2]"
    by code_simp+
  have p: "reveal_pattern ''4821'' [0, 3] = Inr ''4**1''" by code_simp
  have q: "reveal_pattern ''4821'' [1, 2] = Inr ''*82*''" by code_simp
  have o: "overlay_patterns ''4**1'' ''*82*'' = ''4821''" by code_simp
  have r: "(0::int) \<le> 4821" "(4821::int) \<le> 9999" by simp_all
  have ex: "\<exists>p q. snd (clue_finder (helpers (run_app 4821 [3, 0, 2, 1]))) =
             Inr [ShowInfo ''Clue Finder'' (''Clue revealed: '' @ p), BringToFront RootWindow] \<and>
          reveal_pattern ''4821'' (trivia_positions (helpers (run_app 4821 [3, 0, 2, 1]))) = Inr q \<and>
          overlay_patterns p q = ''4821''"
    using patterns_reconstruct_secret [OF r shuffle_example]
    unfolding Let_def app by (simp only: app.simps init_secret) blast
  show ?thesis
    unfolding app app.simps init_secret pos
    using ex [unfolded app app.simps pos] by (intro conjI r shuffle_example refl p q o)
qed

section \<open>The question loop\<close>

lemma quiz_loop_Cons:
  "quiz_loop title answers i ((q, a) # picks) c =
     (fst (quiz_loop title answers (Suc i) picks
             (if answer_matches (answers i) a then c + 1 else c)),
      AskString title q #
      snd (quiz_loop title answers (Suc i) picks
             (if answer_matches (answers i) a then c + 1 else c)))"
  by (simp add: Let_def split: prod.splits)

lemma quiz_loop_asked:
  "snd (quiz_loop title answers i picks c) = map (\<lambda>qa. AskString title (fst qa)) picks"
proof (induction picks arbitrary: i c)
  case Nil
  then show ?case by simp
next
  case (Cons qa picks)
  obtain q a where qa: "qa = (q, a)" by (cases qa)
  show ?case unfolding qa quiz_loop_Cons by (simp add: Cons.IH)
qed

lemma quiz_loop_bounds:
  "c \<le> fst (quiz_loop title answers i picks c) \<and>
   fst (quiz_loop title answers i picks c) \<le> c + int (length picks)"
proof (induction picks arbitrary: i c)
  case Nil
  then show ?case by simp
next
  case (Cons qa picks)
  obtain q a where qa: "qa = (q, a)" by (cases qa)
  show ?case
    unfolding qa quiz_loop_Cons
    using Cons.IH [of "c + 1" "Suc i"] Cons.IH [of c "Suc i"]
    by (simp split: if_splits)
qed

lemma quiz_loop_all:
  "fst (quiz_loop title answers i picks c) = c + int (length picks) \<longleftrightarrow>
   (\<forall>j < length picks. answer_matches (answers (i + j)) (snd (picks ! j)))"
proof (induction picks arbitrary: i c)
  case Nil
  then show ?case by simp
next
  case (Cons qa picks)
  obtain q a where qa: "qa = (q, a)" by (cases qa)
  have all: "(\<forall>j < length (qa # picks). answer_matches (answers (i + j)) (snd ((qa # picks) ! j)))
      \<longleftrightarrow> answer_matches (answers i) a \<and>
          (\<forall>j < length picks. answer_matches (answers (Suc i + j)) (snd (picks ! j)))"
    by (auto simp: qa less_Suc_eq_0_disj)
  show ?case
  proof (cases "answer_matches (answers i) a")
    case True
    then have "fst (quiz_loop title answers i (qa # picks) c) =
        fst (quiz_loop title answers (Suc i) picks (c + 1))"
      unfolding qa quiz_loop_Cons by simp
    moreover have "c + 1 + int (length picks) = c + int (length (qa # picks))" by simp
    ultimately show ?thesis
      using Cons.IH [of "Suc i" "c + 1"] True unfolding all by (simp only: simp_thms)
  next
    case False
    then have "fst (quiz_loop title answers i (qa # picks) c) =
        fst (quiz_loop title answers (Suc i) picks c)"
      unfolding qa quiz_loop_Cons by simp
    moreover have "fst (quiz_loop title answers (Suc i) picks c) \<le> c + int (length picks)"
      using quiz_loop_bounds by blast
    ultimately show ?thesis using False unfolding all by simp
  qed
qed

lemma blank_reply_no_match:
  assumes "blank_reply ans" "a \<noteq> []"
  shows "\<not> answer_matches ans a"
  using assms by (auto simp: blank_reply_def answer_matches_def py_lower_def split: option.splits)

lemma random_sample_picks:
  assumes "valid_sample (length pool) k idxs" "distinct pool"
  shows "random_sample pool k idxs = Inr (map (\<lambda>i. pool ! i) idxs)"
    and "length (map (\<lambda>i. pool ! i) idxs) = k"
    and "distinct (map (\<lambda>i. pool ! i) idxs)"
    and "set (map (\<lambda>i. pool ! i) idxs) \<subseteq> set pool"
proof -
  from assms(1) have len: "length idxs = k" and d: "distinct idxs"
    and inr: "\<forall>i \<in> set idxs. i < length pool"
    by (simp_all add: valid_sample_def list_all_iff)
  have "card (set idxs) \<le> card {..<length pool}"
    using inr by (intro card_mono) auto
  then have "k \<le> length pool" using d len by (simp add: distinct_card)
  then show "random_sample pool k idxs = Inr (map (\<lambda>i. pool ! i) idxs)"
    by (simp add: random_sample_def)
  show "length (map (\<lambda>i. pool ! i) idxs) = k" using len by simp
  have "inj_on (\<lambda>i. pool ! i) (set idxs)"
    using inr assms(2) by (auto simp: inj_on_def nth_eq_iff_index_eq)
  then show "distinct (map (\<lambda>i. pool ! i) idxs)" using d by (simp add: distinct_map)
  show "set (map (\<lambda>i. pool ! i) idxs) \<subseteq> set pool" using inr by auto
qed

lemma trivia_qpool_facts:
  "length trivia_qpool = 10" "distinct trivia_qpool" "\<forall>qa \<in> set trivia_qpool. snd qa \<noteq> []"
  by (simp_all add: trivia_qpool_def)

lemma emergency_qpool_facts:
  "length emergency_qpool = 15" "distinct emergency_qpool"
  "\<forall>qa \<in> set emergency_qpool. snd qa \<noteq> []"
  by (simp_all add: emergency_qpool_def)

section \<open>Trivia Helper\<close>

lemma trivia_helper_unfold:
  assumes "random_sample trivia_qpool 5 idxs = Inr picks"
    and "reveal_pattern (secret h) (trivia_positions h) = Inr q"
  shows "trivia_helper h idxs answers =
     (h, Inr (fst (quiz_loop ''Trivia Helper'' answers 0 picks 0),
        map (\<lambda>qa. AskString ''Trivia Helper'' (fst qa)) picks @
        [if fst (quiz_loop ''Trivia Helper'' answers 0 picks 0) = 5
         then ShowInfo ''Trivia Helper'' (''Passed! Revealed: '' @ q)
         else ShowInfo ''Trivia Helper''
                (''You got '' @ py_str_int (fst (quiz_loop ''Trivia Helper'' answers 0 picks 0))
                 @ ''/5 correct.''),
         BringToFront RootWindow]))"
  using assms quiz_loop_asked [of "''Trivia Helper''" answers 0 picks 0]
  by (auto simp: trivia_helper_def Let_def split: prod.splits)

text \<open>
  Claim C5. The pool has ten distinct entries. For every sample of five positions and
  every sequence of replies, \<^verbatim>\<open>trivia_helper\<close> raises nothing, asks the five sampled
  questions (pairwise different entries of the pool), and ends with \<^verbatim>\<open>correct\<close>
  between 0 and 5; \<^verbatim>\<open>correct\<close> is 5 exactly when all five replies match. The trivia
  pattern is shown exactly when \<^verbatim>\<open>correct\<close> is 5, and otherwise the trace ends with the
  score message alone. A blank or cancelled reply matches no answer, so one such reply
  keeps \<^verbatim>\<open>correct\<close> below 5.
\<close>

theorem trivia_helper_score:
  assumes "valid_sample (length trivia_qpool) 5 idxs" "is_shuffle shuffled" "length code = 4"
  shows "10 \<le> length trivia_qpool \<and> distinct trivia_qpool \<and>
         (let h = SecretHelpers_init code shuffled;
              picks = map (\<lambda>i. trivia_qpool ! i) idxs;
              asked = map (\<lambda>qa. AskString ''Trivia Helper'' (fst qa)) picks
          in length picks = 5 \<and> distinct picks \<and> set picks \<subseteq> set trivia_qpool \<and>
             (\<exists>correct tr q.
                 trivia_helper h idxs answers = (h, Inr (correct, tr)) \<and>
                 reveal_pattern (secret h) (trivia_positions h) = Inr q \<and>
                 0 \<le> correct \<and> correct \<le> 5 \<and>
                 (correct = 5 \<longleftrightarrow>
                    (\<forall>j < 5. answer_matches (answers j) (snd (picks ! j)))) \<and>
                 (ShowInfo ''Trivia Helper'' (''Passed! Revealed: '' @ q) \<in> set tr
                    \<longleftrightarrow> correct = 5) \<and>
                 (correct = 5 \<longrightarrow>
                    tr = asked @ [ShowInfo ''Trivia Helper'' (''Passed! Revealed: '' @ q),
                                  BringToFront RootWindow]) \<and>
                 (correct \<noteq> 5 \<longrightarrow>
                    tr = asked @ [ShowInfo ''Trivia Helper''
                                    (''You got '' @ py_str_int correct @ ''/5 correct.''),
                                  BringToFront RootWindow]) \<and>
                 (\<forall>j < 5. blank_reply (answers j) \<longrightarrow>
                    \<not> answer_matches (answers j) (snd (picks ! j)) \<and> correct < 5)))"
proof -
  let ?h = "SecretHelpers_init code shuffled"
  let ?picks = "map (\<lambda>i. trivia_qpool ! i) idxs"
  let ?asked = "map (\<lambda>qa. AskString ''Trivia Helper'' (fst qa)) ?picks"
  let ?c = "fst (quiz_loop ''Trivia Helper'' answers 0 ?picks 0)"
  let ?q = "map (\<lambda>i. if i \<in> set (trivia_positions ?h) then code ! i else CHR ''*'') [0..<4]"
  note s = random_sample_picks [OF assms(1) trivia_qpool_facts(2)]
  have rq: "reveal_pattern (secret ?h) (trivia_positions ?h) = Inr ?q"
    using init_positions_in_range(2) [OF assms(2), of code] assms(3)
    by (simp add: init_secret reveal_pattern_result)
  note th = trivia_helper_unfold [OF s(1) rq, of answers]
  have b: "0 \<le> ?c" "?c \<le> 5"
    using quiz_loop_bounds [of 0 "''Trivia Helper''" answers 0 ?picks] s(2) by simp_all
  have a: "?c = 5 \<longleftrightarrow> (\<forall>j < 5. answer_matches (answers j) (snd (?picks ! j)))"
    using quiz_loop_all [of "''Trivia Helper''" answers 0 ?picks 0] s(2) by simp
  have notin: "ShowInfo ''Trivia Helper'' (''Passed! Revealed: '' @ ?q) \<notin> set ?asked"
    by auto
  define tr where "tr = ?asked @
        [if ?c = 5 then ShowInfo ''Trivia Helper'' (''Passed! Revealed: '' @ ?q)
         else ShowInfo ''Trivia Helper'' (''You got '' @ py_str_int ?c @ ''/5 correct.''),
         BringToFront RootWindow]"
  have m: "ShowInfo ''Trivia Helper'' (''Passed! Revealed: '' @ ?q) \<in> set tr \<longleftrightarrow> ?c = 5"
    using notin unfolding tr_def by auto
  have t5: "?c = 5 \<longrightarrow> tr = ?asked @ [ShowInfo ''Trivia Helper'' (''Passed! Revealed: '' @ ?q),
                                  BringToFront RootWindow]"
    and tn: "?c \<noteq> 5 \<longrightarrow> tr = ?asked @ [ShowInfo ''Trivia Helper''
                                    (''You got '' @ py_str_int ?c @ ''/5 correct.''),
                                  BringToFront RootWindow]"
    unfolding tr_def by simp_all
  have bl: "\<forall>j < 5. blank_reply (answers j) \<longrightarrow>
      \<not> answer_matches (answers j) (snd (?picks ! j)) \<and> ?c < 5"
  proof (intro allI impI)
    fix j :: nat assume j: "j < 5" and blank: "blank_reply (answers j)"
    have "?picks ! j \<in> set trivia_qpool" using s(2, 4) j by (metis nth_mem subsetD)
    then have "snd (?picks ! j) \<noteq> []" using trivia_qpool_facts(3) by blast
    then have nm: "\<not> answer_matches (answers j) (snd (?picks ! j))"
      using blank by (intro blank_reply_no_match)
    then have "?c \<noteq> 5" using a j by blast
    then show "\<not> answer_matches (answers j) (snd (?picks ! j)) \<and> ?c < 5"
      using nm b by simp
  qed
  have th': "trivia_helper ?h idxs answers = (?h, Inr (?c, tr))"
    unfolding tr_def by (rule th)
  have "\<exists>correct tr q.
                 trivia_helper ?h idxs answers = (?h, Inr (correct, tr)) \<and>
                 reveal_pattern (secret ?h) (trivia_positions ?h) = Inr q \<and>
                 0 \<le> correct \<and> correct \<le> 5 \<and>
                 (correct = 5 \<longleftrightarrow>
                    (\<forall>j < 5. answer_matches (answers j) (snd (?picks ! j)))) \<and>
                 (ShowInfo ''Trivia Helper'' (''Passed! Revealed: '' @ q) \<in> set tr
                    \<longleftrightarrow> correct = 5) \<and>
                 (correct = 5 \<longrightarrow>
                    tr = ?asked @ [ShowInfo ''Trivia Helper'' (''Passed! Revealed: '' @ q),
                                  BringToFront RootWindow]) \<and>
                 (correct \<noteq> 5 \<longrightarrow>
                    tr = ?asked @ [ShowInfo ''Trivia Helper''
                                    (''You got '' @ py_str_int correct @ ''/5 correct.''),
                                  BringToFront RootWindow]) \<and>
                 (\<forall>j < 5. blank_reply (answers j) \<longrightarrow>
                    \<not> answer_matches (answers j) (snd (?picks ! j)) \<and> correct < 5)"
    using th' rq b a m t5 tn bl by blast
  then show ?thesis
    using s(2, 3, 4) trivia_qpool_facts(1, 2) by (simp add: Let_def)
qed

theorem trivia_helper_score_witness:
  "valid_sample (length trivia_qpool) 5 [0, 1, 2, 3, 4] \<and> is_shuffle [3, 0, 2, 1] \<and>
   length ''4821'' = 4 \<and> 10 \<le> length trivia_qpool \<and> distinct trivia_qpool \<and>
   snd (trivia_helper (SecretHelpers_init ''4821'' [3, 0, 2, 1]) [0, 1, 2, 3, 4]
          (\<lambda>j. Some (snd (trivia_qpool ! j)))) =
     Inr (5, map (\<lambda>qa. AskString ''Trivia Helper'' (fst qa)) (take 5 trivia_qpool) @
             [ShowInfo ''Trivia Helper'' ''Passed! Revealed: *82*'', BringToFront RootWindow]) \<and>
   blank_reply (Some ''  '') \<and>
   snd (trivia_helper (SecretHelpers_init ''4821'' [3, 0, 2, 1]) [0, 1, 2, 3, 4]
          (\<lambda>j. if j = 2 then Some ''  '' else Some (snd (trivia_qpool ! j)))) =
     Inr (4, map (\<lambda>qa. AskString ''Trivia Helper'' (fst qa)) (take 5 trivia_qpool) @
             [ShowInfo ''Trivia Helper'' ''You got 4/5 correct.'', BringToFront RootWindow])"
proof -
  have vs: "valid_sample (length trivia_qpool) 5 [0, 1, 2, 3, 4]" by code_simp
  have len: "length ''4821'' = 4" by simp
  have pool: "10 \<le> length trivia_qpool \<and> distinct trivia_qpool"
    using trivia_helper_score [OF vs shuffle_example len] by blast
  have t1: "snd (trivia_helper (SecretHelpers_init ''4821'' [3, 0, 2, 1]) [0, 1, 2, 3, 4]
          (\<lambda>j. Some (snd (trivia_qpool ! j)))) =
     Inr (5, map (\<lambda>qa. AskString ''Trivia Helper'' (fst qa)) (take 5 trivia_qpool) @
             [ShowInfo ''Trivia Helper'' ''Passed! Revealed: *82*'', BringToFront RootWindow])"
    by code_simp
  have bl: "blank_reply (Some ''  '')" by code_simp
  have t2: "snd (trivia_helper (SecretHelpers_init ''4821'' [3, 0, 2, 1]) [0, 1, 2, 3, 4]
          (\<lambda>j. if j = 2 then Some ''  '' else Some (snd (trivia_qpool ! j)))) =
     Inr (4, map (\<lambda>qa. AskString ''Trivia Helper'' (fst qa)) (take 5 trivia_qpool) @
             [ShowInfo ''Trivia Helper'' ''You got 4/5 correct.'', BringToFront RootWindow])"
    by code_simp
  show ?thesis using vs shuffle_example len pool t1 bl t2 by (intro conjI) blast+
qed

section \<open>Emergency quiz\<close>

lemma emergency_quiz_flow_unfold:
  assumes "random_sample emergency_qpool 10 idxs = Inr picks"
  shows "emergency_quiz_flow secret_code True idxs answers code =
     Inr (confirm_dialog # map (\<lambda>qa. AskString ''Emergency Quiz'' (fst qa)) picks @
          (if fst (quiz_loop ''Emergency Quiz'' answers 0 picks 0) = 10 then
             (if code_accepted code secret_code then
                [perfect_dialog, code_prompt,
                 ShowInfo ''Unlocked'' ''Correct code! Escape key: Ctrl + Shift + K'', DestroyRoot]
              else [perfect_dialog, code_prompt, ShowError ''Wrong'' ''Incorrect code.''])
           else
             [ShowInfo ''Emergency Result''
                (''You got '' @
                 py_str_int (10 - fst (quiz_loop ''Emergency Quiz'' answers 0 picks 0)) @
                 ''/10 wrong.''),
              BringToFront RootWindow]),
          if fst (quiz_loop ''Emergency Quiz'' answers 0 picks 0) = 10
             \<and> code_accepted code secret_code
          then Exited 0 else Returned)"
  using assms quiz_loop_asked [of "''Emergency Quiz''" answers 0 picks 0]
  by (auto simp: emergency_quiz_flow_def Let_def split: prod.splits)

lemma code_prompt_not_asked:
  "code_prompt \<notin> set (map (\<lambda>qa. AskString ''Emergency Quiz'' (fst qa)) picks)"
  by (auto simp: code_prompt_def)

text \<open>
  Claim C4. After the user confirms, \<^verbatim>\<open>correct\<close> lies between 0 and 10 and is 10
  exactly when all ten replies match. The code prompt is shown exactly when
  \<^verbatim>\<open>correct\<close> is 10; otherwise the flow shows the result message with the count
  \<open>10 - correct\<close> and returns, with no code prompt. A declined confirmation asks no
  question and shows no code prompt.
\<close>

theorem emergency_code_prompt_iff_perfect:
  assumes "valid_sample (length emergency_qpool) 10 idxs"
  shows "(let picks = map (\<lambda>i. emergency_qpool ! i) idxs;
              asked = map (\<lambda>qa. AskString ''Emergency Quiz'' (fst qa)) picks;
              correct = fst (quiz_loop ''Emergency Quiz'' answers 0 picks 0)
          in 0 \<le> correct \<and> correct \<le> 10 \<and>
             (correct = 10 \<longleftrightarrow>
                (\<forall>j < 10. answer_matches (answers j) (snd (picks ! j)))) \<and>
             (\<exists>tr out.
                 emergency_quiz_flow secret_code True idxs answers code = Inr (tr, out) \<and>
                 (code_prompt \<in> set tr \<longleftrightarrow> correct = 10) \<and>
                 (correct \<noteq> 10 \<longrightarrow>
                    tr = confirm_dialog # asked @
                         [ShowInfo ''Emergency Result''
                            (''You got '' @ py_str_int (10 - correct) @ ''/10 wrong.''),
                          BringToFront RootWindow] \<and>
                    out = Returned))) \<and>
         emergency_quiz_flow secret_code False idxs answers code =
           Inr ([confirm_dialog, BringToFront RootWindow], Returned) \<and>
         code_prompt \<notin> set [confirm_dialog, BringToFront RootWindow]"
proof -
  let ?picks = "map (\<lambda>i. emergency_qpool ! i) idxs"
  let ?asked = "map (\<lambda>qa. AskString ''Emergency Quiz'' (fst qa)) ?picks"
  let ?c = "fst (quiz_loop ''Emergency Quiz'' answers 0 ?picks 0)"
  note s = random_sample_picks [OF assms emergency_qpool_facts(2)]
  note u = emergency_quiz_flow_unfold [OF s(1), of secret_code answers code]
  have b: "0 \<le> ?c" "?c \<le> 10"
    using quiz_loop_bounds [of 0 "''Emergency Quiz''" answers 0 ?picks] s(2) by simp_all
  have a: "?c = 10 \<longleftrightarrow> (\<forall>j < 10. answer_matches (answers j) (snd (?picks ! j)))"
    using quiz_loop_all [of "''Emergency Quiz''" answers 0 ?picks 0] s(2) by simp
  have np: "code_prompt \<notin> set ?asked" by (rule code_prompt_not_asked)
  have nc: "code_prompt \<noteq> confirm_dialog" "code_prompt \<noteq> perfect_dialog"
    by (simp_all add: code_prompt_def confirm_dialog_def perfect_dialog_def)
  have ex: "\<exists>tr out.
                 emergency_quiz_flow secret_code True idxs answers code = Inr (tr, out) \<and>
                 (code_prompt \<in> set tr \<longleftrightarrow> ?c = 10) \<and>
                 (?c \<noteq> 10 \<longrightarrow>
                    tr = confirm_dialog # ?asked @
                         [ShowInfo ''Emergency Result''
                            (''You got '' @ py_str_int (10 - ?c) @ ''/10 wrong.''),
                          BringToFront RootWindow] \<and>
                    out = Returned)"
  proof (cases "?c = 10")
    case True
    then show ?thesis unfolding u using np nc by (simp add: code_prompt_def)
  next
    case False
    then show ?thesis unfolding u using np nc by (simp add: code_prompt_def)
  qed
  have d: "emergency_quiz_flow secret_code False idxs answers code =
           Inr ([confirm_dialog, BringToFront RootWindow], Returned)"
    by (simp add: emergency_quiz_flow_def)
  have dn: "code_prompt \<notin> set [confirm_dialog, BringToFront RootWindow]"
    using nc by (simp add: code_prompt_def)
  show ?thesis using b a ex d dn by (simp only: Let_def simp_thms)
qed

theorem emergency_code_prompt_iff_perfect_witness:
  "valid_sample (length emergency_qpool) 10 [0, 1, 2, 3, 4, 5, 6, 7, 8, 14] \<and>
   fst (quiz_loop ''Emergency Quiz''
          (\<lambda>j. if j < 3 then None else Some (snd (emergency_qpool ! (if j = 9 then 14 else j))))
          0 (map (\<lambda>i. emergency_qpool ! i) [0, 1, 2, 3, 4, 5, 6, 7, 8, 14]) 0) = 7 \<and>
   emergency_quiz_flow ''4821'' True [0, 1, 2, 3, 4, 5, 6, 7, 8, 14]
       (\<lambda>j. if j < 3 then None else Some (snd (emergency_qpool ! (if j = 9 then 14 else j))))
       (Some ''4821'') =
     Inr (confirm_dialog #
          map (\<lambda>qa. AskString ''Emergency Quiz'' (fst qa))
            (map (\<lambda>i. emergency_qpool ! i) [0, 1, 2, 3, 4, 5, 6, 7, 8, 14]) @
          [ShowInfo ''Emergency Result'' ''You got 3/10 wrong.'', BringToFront RootWindow],
          Returned) \<and>
   emergency_quiz_flow ''4821'' False [0, 1, 2, 3, 4, 5, 6, 7, 8, 14]
       (\<lambda>j. if j < 3 then None else Some (snd (emergency_qpool ! (if j = 9 then 14 else j))))
       (Some ''4821'') =
     Inr ([confirm_dialog, BringToFront RootWindow], Returned)"
proof -
  let ?idxs = "[0, 1, 2, 3, 4, 5, 6, 7, 8, 14::nat]"
  let ?answers = "\<lambda>j::nat. if j < 3 then None
                   else Some (snd (emergency_qpool ! (if j = 9 then 14 else j)))"
  have vs: "valid_sample (length emergency_qpool) 10 ?idxs" by code_simp
  have c: "fst (quiz_loop ''Emergency Quiz'' ?answers 0
                  (map (\<lambda>i. emergency_qpool ! i) ?idxs) 0) = 7"
    by code_simp
  have w: "py_str_int (10 - 7) = ''3''" by code_simp
  note t = emergency_code_prompt_iff_perfect [OF vs, of ?answers "''4821''" "Some ''4821''"]
  from t have "emergency_quiz_flow ''4821'' False ?idxs ?answers (Some ''4821'') =
     Inr ([confirm_dialog, BringToFront RootWindow], Returned)"
    by blast
  moreover from t have "emergency_quiz_flow ''4821'' True ?idxs ?answers (Some ''4821'') =
     Inr (confirm_dialog #
          map (\<lambda>qa. AskString ''Emergency Quiz'' (fst qa))
            (map (\<lambda>i. emergency_qpool ! i) ?idxs) @
          [ShowInfo ''Emergency Result'' ''You got 3/10 wrong.'', BringToFront RootWindow],
          Returned)"
    unfolding Let_def c w by auto
  ultimately show ?thesis using vs c by blast
qed

section \<open>Code entry\<close>

lemma digit_not_space: "is_ascii_digit c \<Longrightarrow> \<not> py_isspace c"
  by (auto simp: is_ascii_digit_def py_isspace_def Let_def)

lemma py_strip_four_digits:
  assumes "four_digits s"
  shows "py_strip s = s"
proof -
  from assms have "length s = 4" by (simp add: four_digits_def)
  then obtain a b c d where s: "s = [a, b, c, d]" by (rule length_4_cases)
  have "\<not> py_isspace a" "\<not> py_isspace d"
    using assms by (simp_all add: s four_digits_def digit_not_space)
  then show ?thesis by (simp add: s py_strip_def)
qed

lemma code_accepted_iff:
  "code_accepted code secret_code \<longleftrightarrow>
   (\<exists>c. code = Some c \<and> c \<noteq> [] \<and> py_strip c = secret_code)"
  by (cases code) (simp_all add: code_accepted_def)

lemma code_accepted_four_digits:
  assumes "four_digits secret_code"
  shows "code_accepted (Some secret_code) secret_code"
    and "blank_reply code \<Longrightarrow> \<not> code_accepted code secret_code"
proof -
  have ne: "secret_code \<noteq> []" using assms by (auto simp: four_digits_def)
  show "code_accepted (Some secret_code) secret_code"
    using ne py_strip_four_digits [OF assms] by (simp add: code_accepted_def)
  show "\<not> code_accepted code secret_code" if "blank_reply code"
    using that ne by (auto simp: code_accepted_def blank_reply_def split: option.splits)
qed

text \<open>
  Claim C3, as stated, fails: after a perfect quiz the entry \<open>" 4821"\<close>, which is not the
  string \<open>"4821"\<close>, takes the success path, because the program strips the entry before
  comparing.
\<close>

theorem code_entry_exact_match_counterexample:
  "map_sum id snd
     (emergency_quiz_flow ''4821'' True [0, 1, 2, 3, 4, 5, 6, 7, 8, 9]
        (Some \<circ> snd \<circ> (!) emergency_qpool) (Some '' 4821'')) = Inr (Exited 0) \<and>
   '' 4821'' \<noteq> ''4821''"
  by code_simp

text \<open>
  Claim C3, amended. When the quiz is perfect the code prompt is shown, and the success
  path (the Unlocked message, the main window destroyed, exit with code 0) is taken if
  and only if an entry was made, it is not empty, and with leading and trailing
  whitespace stripped it equals the secret code. Every other reply leads to the error
  message and the flow returns. With a four-digit secret code, entering the code itself
  succeeds and a blank or cancelled entry fails.
\<close>

theorem code_entry_stripped_match:
  assumes "valid_sample (length emergency_qpool) 10 idxs"
    and "\<forall>j < 10. answer_matches (answers j) (snd (map (\<lambda>i. emergency_qpool ! i) idxs ! j))"
  shows "\<exists>pre out.
           emergency_quiz_flow secret_code True idxs answers code =
             Inr (pre @ perfect_dialog # code_prompt #
                  (if out = Exited 0
                   then [ShowInfo ''Unlocked'' ''Correct code! Escape key: Ctrl + Shift + K'',
                         DestroyRoot]
                   else [ShowError ''Wrong'' ''Incorrect code.'']), out) \<and>
           (out = Exited 0 \<or> out = Returned) \<and>
           (out = Exited 0 \<longleftrightarrow>
              (\<exists>c. code = Some c \<and> c \<noteq> [] \<and> py_strip c = secret_code)) \<and>
           (four_digits secret_code \<longrightarrow>
              (code = Some secret_code \<longrightarrow> out = Exited 0) \<and>
              (blank_reply code \<longrightarrow> out = Returned))"
proof -
  let ?picks = "map (\<lambda>i. emergency_qpool ! i) idxs"
  let ?asked = "map (\<lambda>qa. AskString ''Emergency Quiz'' (fst qa)) ?picks"
  let ?c = "fst (quiz_loop ''Emergency Quiz'' answers 0 ?picks 0)"
  note s = random_sample_picks [OF assms(1) emergency_qpool_facts(2)]
  note u = emergency_quiz_flow_unfold [OF s(1), of secret_code answers code]
  have c: "?c = 10"
    using quiz_loop_all [of "''Emergency Quiz''" answers 0 ?picks 0] s(2) assms(2) by simp
  define out where "out = (if code_accepted code secret_code then Exited 0 else Returned)"
  have o: "out = Exited 0 \<longleftrightarrow> code_accepted code secret_code"
    and o2: "out = Exited 0 \<or> out = Returned"
    by (simp_all add: out_def)
  have f: "emergency_quiz_flow secret_code True idxs answers code =
             Inr ((confirm_dialog # ?asked) @ perfect_dialog # code_prompt #
                  (if out = Exited 0
                   then [ShowInfo ''Unlocked'' ''Correct code! Escape key: Ctrl + Shift + K'',
                         DestroyRoot]
                   else [ShowError ''Wrong'' ''Incorrect code.'']), out)"
    unfolding u c by (simp add: out_def)
  have fd: "four_digits secret_code \<longrightarrow>
              (code = Some secret_code \<longrightarrow> out = Exited 0) \<and>
              (blank_reply code \<longrightarrow> out = Returned)"
    using code_accepted_four_digits(1) [of secret_code]
      code_accepted_four_digits(2) [of secret_code code] o o2 by blast
  show ?thesis
    using f o2 o [unfolded code_accepted_iff] fd by blast
qed

theorem code_entry_stripped_match_witness:
  "valid_sample (length emergency_qpool) 10 [0, 1, 2, 3, 4, 5, 6, 7, 8, 9] \<and>
   list_all (\<lambda>j. answer_matches ((Some \<circ> snd \<circ> (!) emergency_qpool) j)
                   (snd (map (\<lambda>i. emergency_qpool ! i) [0, 1, 2, 3, 4, 5, 6, 7, 8, 9] ! j)))
     [0, 1, 2, 3, 4, 5, 6, 7, 8, 9] \<and>
   four_digits ''4821'' \<and> py_strip '' 4821 '' = ''4821'' \<and>
   map_sum id snd
     (emergency_quiz_flow ''4821'' True [0, 1, 2, 3, 4, 5, 6, 7, 8, 9]
        (Some \<circ> snd \<circ> (!) emergency_qpool) (Some '' 4821 '')) = Inr (Exited 0) \<and>
   map_sum id snd
     (emergency_quiz_flow ''4821'' True [0, 1, 2, 3, 4, 5, 6, 7, 8, 9]
        (Some \<circ> snd \<circ> (!) emergency_qpool) (Some ''4812'')) = Inr Returned \<and>
   map_sum id snd
     (emergency_quiz_flow ''4821'' True [0, 1, 2, 3, 4, 5, 6, 7, 8, 9]
        (Some \<circ> snd \<circ> (!) emergency_qpool) None) = Inr Returned"
proof -
  let ?idxs = "[0, 1, 2, 3, 4, 5, 6, 7, 8, 9::nat]"
  let ?answers = "Some \<circ> snd \<circ> (!) emergency_qpool"
  let ?ok = "\<lambda>j. answer_matches (?answers j) (snd (map (\<lambda>i. emergency_qpool ! i) ?idxs ! j))"
  have vs: "valid_sample (length emergency_qpool) 10 ?idxs" by code_simp
  have la: "list_all ?ok ?idxs" by code_simp
  have all: "\<forall>j < 10. ?ok j"
  proof (intro allI impI)
    fix j :: nat assume "j < 10"
    moreover have "?idxs = [0..<10]" by code_simp
    ultimately have "j \<in> set ?idxs" by (simp only: set_upt atLeastLessThan_iff le0 simp_thms)
    then show "?ok j" using la unfolding list_all_iff by (rule_tac bspec)
  qed
  have fd: "four_digits ''4821''" by (simp add: four_digits_def is_ascii_digit_def)
  have st: "py_strip '' 4821 '' = ''4821''" by code_simp
  have st2: "py_strip ''4812'' \<noteq> ''4821''" by code_simp
  have e1: "map_sum id snd (emergency_quiz_flow ''4821'' True ?idxs ?answers (Some '' 4821 ''))
            = Inr (Exited 0)"
  proof -
    from code_entry_stripped_match [OF vs all, of "''4821''" "Some '' 4821 ''"]
    obtain tr out where
      f: "emergency_quiz_flow ''4821'' True ?idxs ?answers (Some '' 4821 '') = Inr (tr, out)"
      and o: "out = Exited 0 \<longleftrightarrow>
              (\<exists>c. Some '' 4821 '' = Some c \<and> c \<noteq> [] \<and> py_strip c = ''4821'')"
      by blast
    have "out = Exited 0" unfolding o using st by blast
    then show ?thesis unfolding f by simp
  qed
  have e2: "map_sum id snd (emergency_quiz_flow ''4821'' True ?idxs ?answers (Some ''4812''))
            = Inr Returned"
  proof -
    from code_entry_stripped_match [OF vs all, of "''4821''" "Some ''4812''"]
    obtain tr out where
      f: "emergency_quiz_flow ''4821'' True ?idxs ?answers (Some ''4812'') = Inr (tr, out)"
      and r: "out = Exited 0 \<or> out = Returned"
      and o: "out = Exited 0 \<longleftrightarrow>
              (\<exists>c. Some ''4812'' = Some c \<and> c \<noteq> [] \<and> py_strip c = ''4821'')"
      by blast
    have "out \<noteq> Exited 0" unfolding o using st2 by blast
    then have "out = Returned" using r by blast
    then show ?thesis unfolding f by simp
  qed
  have e3: "map_sum id snd (emergency_quiz_flow ''4821'' True ?idxs ?answers None)
            = Inr Returned"
  proof -
    from code_entry_stripped_match [OF vs all, of "''4821''" None]
    obtain tr out where
      f: "emergency_quiz_flow ''4821'' True ?idxs ?answers None = Inr (tr, out)"
      and r: "out = Exited 0 \<or> out = Returned"
      and o: "out = Exited 0 \<longleftrightarrow>
              (\<exists>c. None = Some c \<and> c \<noteq> [] \<and> py_strip c = ''4821'')"
      by blast
    have "out \<noteq> Exited 0" unfolding o by blast
    then have "out = Returned" using r by blast
    then show ?thesis unfolding f by simp
  qed
  show ?thesis by (intro conjI vs la fd st e1 e2 e3)
qed

section \<open>The window guard\<close>

lemma opened_append: "opened (xs @ ys) = opened xs @ opened ys"
  by (induction xs rule: opened.induct) simp_all

lemma run_snoc: "run (evs @ [e]) = step (run evs) e"
  by (simp add: run_def)

lemma guard_inv_initial: "guard_inv initial_root"
  by (simp add: guard_inv_def initial_root_def)

lemma guard_inv_show_overlay:
  assumes "guard_inv rt" "2 \<le> attempts rt"
  shows "guard_inv (show_overlay_then_reset d rt)"
  using assms
  by (auto simp: guard_inv_def show_overlay_then_reset_def Let_def opened_append
      split: option.splits if_splits)

lemma guard_inv_finish:
  assumes "guard_inv rt" "n \<in> set (overlays rt)"
  shows "guard_inv (finish n rt)"
  using assms
  by (auto simp: guard_inv_def finish_def opened_append split: option.splits if_splits)

lemma guard_inv_close:
  assumes "guard_inv rt"
  shows "guard_inv (on_close_attempt r rt)"
proof (cases "attempts rt = 0")
  case True
  then show ?thesis
    using assms
    by (auto simp: on_close_attempt_def Let_def guard_inv_def opened_append warning_dialog_def
        split: if_splits)
next
  case False
  let ?rt1 = "rt\<lparr>attempts := attempts rt + 1\<rparr>"
  from assms False have a: "2 \<le> attempts ?rt1" by (simp add: guard_inv_def)
  have i: "guard_inv ?rt1"
    using assms by (auto simp: guard_inv_def split: if_splits option.splits)
  have "on_close_attempt r rt = show_overlay_then_reset (r * 1000) ?rt1"
    using False by (simp add: on_close_attempt_def Let_def)
  then show ?thesis using guard_inv_show_overlay [OF i a] by simp
qed

lemma guard_inv_unmap:
  assumes "guard_inv rt"
  shows "guard_inv (on_unmap st r rt)"
proof (cases "st = ''iconic''")
  case False
  then show ?thesis using assms by (simp add: on_unmap_def)
next
  case iconic: True
  show ?thesis
  proof (cases "attempts rt = 0")
    case True
    then show ?thesis
      using assms iconic
      by (auto simp: on_unmap_def Let_def guard_inv_def opened_append warning_dialog_def
          split: if_splits)
  next
    case False
    let ?rt2 = "rt\<lparr>attempts := attempts rt + 1, ui := ui rt @ [AfterDeiconify]\<rparr>"
    from assms False have a: "2 \<le> attempts ?rt2" by (simp add: guard_inv_def)
    have i: "guard_inv ?rt2"
      using assms by (auto simp: guard_inv_def opened_append split: if_splits option.splits)
    have "on_unmap st r rt = show_overlay_then_reset (r * 1000) ?rt2"
      using False iconic by (simp add: on_unmap_def Let_def)
    then show ?thesis using guard_inv_show_overlay [OF i a] by simp
  qed
qed

lemma guard_inv_step: "guard_inv rt \<Longrightarrow> guard_inv (step rt e)"
  by (cases e) (simp_all add: guard_inv_close guard_inv_unmap guard_inv_finish)

lemma guard_inv_run: "guard_inv (run evs)"
proof (induction evs rule: rev_induct)
  case Nil
  then show ?case by (simp add: run_def guard_inv_initial)
next
  case (snoc e evs)
  then show ?case by (simp only: run_snoc guard_inv_step)
qed

lemma guard_inv_overlays:
  assumes "guard_inv rt"
  shows "length (overlays rt) \<le> 1" and "overlay_open rt \<longleftrightarrow> overlays rt \<noteq> []"
  using assms by (auto simp: guard_inv_def split: if_splits option.splits)

lemma attempt_cases:
  assumes "is_attempt e"
  obtains r where "e = CloseAttempt r" | r where "e = Unmap ''iconic'' r"
  using assms by (cases e) auto

lemma attempt_counts:
  assumes "is_attempt e"
  shows "attempts (step rt e) = attempts rt + 1"
  using assms
  by (cases e) (auto simp: on_close_attempt_def on_unmap_def show_overlay_then_reset_def Let_def)

lemma first_attempt_warns:
  assumes "guard_inv rt" "attempts rt = 0" "is_attempt e"
  shows "ui (step rt e) =
           ui rt @ (case e of Unmap st r \<Rightarrow> [AfterDeiconify] | _ \<Rightarrow> []) @
           [warning_dialog, BringToFront RootWindow]"
    and "opened (ui (step rt e)) = opened (ui rt)"
    and "\<not> overlay_open (step rt e)" and "overlays (step rt e) = []"
proof -
  from assms(1, 2) have closed: "\<not> overlay_open rt" "overlays rt = []"
    by (auto simp: guard_inv_def split: if_splits)
  show "ui (step rt e) =
           ui rt @ (case e of Unmap st r \<Rightarrow> [AfterDeiconify] | _ \<Rightarrow> []) @
           [warning_dialog, BringToFront RootWindow]"
    using assms(3, 2) by (cases e) (auto simp: on_close_attempt_def on_unmap_def Let_def)
  then show "opened (ui (step rt e)) = opened (ui rt)"
    by (cases e) (simp_all add: opened_append warning_dialog_def)
  show "\<not> overlay_open (step rt e)"
    using assms(3, 2) closed
    by (cases e) (auto simp: on_close_attempt_def on_unmap_def Let_def)
  show "overlays (step rt e) = []"
    using assms(3, 2) closed
    by (cases e) (auto simp: on_close_attempt_def on_unmap_def Let_def)
qed

lemma later_attempt_opens:
  assumes "guard_inv rt" "attempts rt \<noteq> 0" "\<not> overlay_open rt" "is_attempt e"
  shows "created rt \<notin> set (opened (ui rt))"
    and "opened (ui (step rt e)) = opened (ui rt) @ [created rt]"
    and "overlay_open (step rt e)"
    and "active_overlay (step rt e) = Some (created rt)"
    and "overlays (step rt e) = [created rt]"
    and "last (ui (step rt e)) = BringToFront (OverlayWindow (created rt))"
proof -
  from assms(1, 3) have o: "opened (ui rt) = [0..<created rt]" "overlays rt = []"
    by (auto simp: guard_inv_def split: if_splits)
  show "created rt \<notin> set (opened (ui rt))" by (simp add: o)
  show "opened (ui (step rt e)) = opened (ui rt) @ [created rt]"
    using assms(4, 2, 3)
    by (cases e) (auto simp: on_close_attempt_def on_unmap_def show_overlay_then_reset_def Let_def
          opened_append)
  show "overlay_open (step rt e)"
    using assms(4, 2, 3)
    by (cases e) (auto simp: on_close_attempt_def on_unmap_def show_overlay_then_reset_def Let_def)
  show "active_overlay (step rt e) = Some (created rt)"
    using assms(4, 2, 3)
    by (cases e) (auto simp: on_close_attempt_def on_unmap_def show_overlay_then_reset_def Let_def)
  show "overlays (step rt e) = [created rt]"
    using assms(4, 2, 3) o
    by (cases e) (auto simp: on_close_attempt_def on_unmap_def show_overlay_then_reset_def Let_def)
  show "last (ui (step rt e)) = BringToFront (OverlayWindow (created rt))"
    using assms(4, 2, 3)
    by (cases e) (auto simp: on_close_attempt_def on_unmap_def show_overlay_then_reset_def Let_def)
qed

lemma attempt_with_overlay_refocuses:
  assumes "guard_inv rt" "overlay_open rt" "is_attempt e"
  obtains n where "active_overlay rt = Some n" "overlays rt = [n]"
    "ui (step rt e) =
       ui rt @ (case e of Unmap st r \<Rightarrow> [AfterDeiconify] | _ \<Rightarrow> []) @
       [BringToFront (OverlayWindow n)]"
    "opened (ui (step rt e)) = opened (ui rt)" "overlay_open (step rt e)"
    "active_overlay (step rt e) = Some n" "overlays (step rt e) = [n]"
proof -
  from assms(1, 2) obtain n where n: "active_overlay rt = Some n" "overlays rt = [n]"
    and a: "attempts rt \<noteq> 0"
    by (auto simp: guard_inv_def split: if_splits option.splits)
  have u: "ui (step rt e) =
       ui rt @ (case e of Unmap st r \<Rightarrow> [AfterDeiconify] | _ \<Rightarrow> []) @
       [BringToFront (OverlayWindow n)]"
    using assms(3, 2) a n
    by (cases e) (auto simp: on_close_attempt_def on_unmap_def show_overlay_then_reset_def Let_def)
  have op: "opened (ui (step rt e)) = opened (ui rt)"
    unfolding u by (cases e) (simp_all add: opened_append)
  have rest: "overlay_open (step rt e)" "active_overlay (step rt e) = Some n"
      "overlays (step rt e) = [n]"
    using assms(3, 2) a n
    by (cases e; simp add: on_close_attempt_def on_unmap_def show_overlay_then_reset_def Let_def)+
  show ?thesis using that [OF n u op rest] .
qed

lemma finish_timer_resets:
  assumes "guard_inv rt" "n \<in> set (overlays rt)"
  shows "\<not> overlay_open (step rt (FinishTimer n))"
    and "active_overlay (step rt (FinishTimer n)) = None"
    and "overlays (step rt (FinishTimer n)) = []"
    and "attempts (step rt (FinishTimer n)) = 0"
    and "ui (step rt (FinishTimer n)) = ui rt @ [DestroyOverlay n, BringToFront RootWindow]"
  using assms by (auto simp: guard_inv_def finish_def split: if_splits option.splits)

text \<open>
  Claim C1. Let \<open>s\<close> be the state after any sequence of events from the start of the
  application, and \<open>s'\<close> the state after one more close or minimize attempt. At most one
  overlay window exists, before and after, and the attempt is counted. If no attempt
  was counted before (\<open>attempts s = 0\<close>), the attempt only shows the warning (after
  scheduling the restore, for a minimize) and no overlay is created. If attempts were
  counted and no overlay is open, exactly one overlay is created, becomes the active
  overlay and is brought to the front. If an overlay is open, the attempt brings that
  overlay to the front and creates none. When the timer of the overlay fires, the
  overlay is destroyed, \<^verbatim>\<open>overlay_open\<close> is unset and \<^verbatim>\<open>attempts\<close> is 0.
\<close>

theorem window_guard_attempts:
  assumes "is_attempt e"
  shows "(let s = run evs; s' = step s e;
              pre = (case e of Unmap st r \<Rightarrow> [AfterDeiconify] | _ \<Rightarrow> [])
          in length (overlays s) \<le> 1 \<and> length (overlays s') \<le> 1 \<and>
             (overlay_open s \<longleftrightarrow> overlays s \<noteq> []) \<and>
             attempts s' = attempts s + 1 \<and>
             (attempts s = 0 \<longrightarrow>
                ui s' = ui s @ pre @ [warning_dialog, BringToFront RootWindow] \<and>
                opened (ui s') = opened (ui s) \<and> \<not> overlay_open s' \<and> overlays s' = []) \<and>
             (attempts s \<noteq> 0 \<and> \<not> overlay_open s \<longrightarrow>
                (\<exists>n. n \<notin> set (opened (ui s)) \<and> opened (ui s') = opened (ui s) @ [n] \<and>
                     overlay_open s' \<and> active_overlay s' = Some n \<and> overlays s' = [n] \<and>
                     last (ui s') = BringToFront (OverlayWindow n))) \<and>
             (overlay_open s \<longrightarrow>
                (\<exists>n. active_overlay s = Some n \<and> overlays s = [n] \<and>
                     ui s' = ui s @ pre @ [BringToFront (OverlayWindow n)] \<and>
                     opened (ui s') = opened (ui s) \<and>
                     overlay_open s' \<and> active_overlay s' = Some n \<and> overlays s' = [n])) \<and>
             (\<forall>n \<in> set (overlays s).
                \<not> overlay_open (step s (FinishTimer n)) \<and>
                active_overlay (step s (FinishTimer n)) = None \<and>
                overlays (step s (FinishTimer n)) = [] \<and>
                attempts (step s (FinishTimer n)) = 0 \<and>
                ui (step s (FinishTimer n)) =
                  ui s @ [DestroyOverlay n, BringToFront RootWindow]))"
proof -
  let ?s = "run evs"
  let ?s' = "step ?s e"
  let ?pre = "case e of Unmap st r \<Rightarrow> [AfterDeiconify] | _ \<Rightarrow> []"
  have i: "guard_inv ?s" by (rule guard_inv_run)
  have i': "guard_inv ?s'" using i by (rule guard_inv_step)
  have c1: "length (overlays ?s) \<le> 1" "length (overlays ?s') \<le> 1"
      "overlay_open ?s \<longleftrightarrow> overlays ?s \<noteq> []"
    using guard_inv_overlays [OF i] guard_inv_overlays(1) [OF i'] by blast+
  have c2: "attempts ?s' = attempts ?s + 1" using assms by (rule attempt_counts)
  have c3: "attempts ?s = 0 \<longrightarrow>
                ui ?s' = ui ?s @ ?pre @ [warning_dialog, BringToFront RootWindow] \<and>
                opened (ui ?s') = opened (ui ?s) \<and> \<not> overlay_open ?s' \<and> overlays ?s' = []"
    using first_attempt_warns [OF i _ assms] by blast
  have c4: "attempts ?s \<noteq> 0 \<and> \<not> overlay_open ?s \<longrightarrow>
                (\<exists>n. n \<notin> set (opened (ui ?s)) \<and> opened (ui ?s') = opened (ui ?s) @ [n] \<and>
                     overlay_open ?s' \<and> active_overlay ?s' = Some n \<and> overlays ?s' = [n] \<and>
                     last (ui ?s') = BringToFront (OverlayWindow n))"
    using later_attempt_opens [OF i _ _ assms] by blast
  have c5: "overlay_open ?s \<longrightarrow>
                (\<exists>n. active_overlay ?s = Some n \<and> overlays ?s = [n] \<and>
                     ui ?s' = ui ?s @ ?pre @ [BringToFront (OverlayWindow n)] \<and>
                     opened (ui ?s') = opened (ui ?s) \<and>
                     overlay_open ?s' \<and> active_overlay ?s' = Some n \<and> overlays ?s' = [n])"
  proof
    assume "overlay_open ?s"
    with i obtain n where "active_overlay ?s = Some n" "overlays ?s = [n]"
      "ui ?s' = ui ?s @ ?pre @ [BringToFront (OverlayWindow n)]"
      "opened (ui ?s') = opened (ui ?s)" "overlay_open ?s'"
      "active_overlay ?s' = Some n" "overlays ?s' = [n]"
      using assms by (rule attempt_with_overlay_refocuses)
    then show "\<exists>n. active_overlay ?s = Some n \<and> overlays ?s = [n] \<and>
                     ui ?s' = ui ?s @ ?pre @ [BringToFront (OverlayWindow n)] \<and>
                     opened (ui ?s') = opened (ui ?s) \<and>
                     overlay_open ?s' \<and> active_overlay ?s' = Some n \<and> overlays ?s' = [n]"
      by blast
  qed
  have c6: "\<forall>n \<in> set (overlays ?s).
                \<not> overlay_open (step ?s (FinishTimer n)) \<and>
                active_overlay (step ?s (FinishTimer n)) = None \<and>
                overlays (step ?s (FinishTimer n)) = [] \<and>
                attempts (step ?s (FinishTimer n)) = 0 \<and>
                ui (step ?s (FinishTimer n)) =
                  ui ?s @ [DestroyOverlay n, BringToFront RootWindow]"
    using finish_timer_resets [OF i] by blast
  show ?thesis unfolding Let_def using c1 c2 c3 c4 c5 c6 by blast
qed

theorem window_guard_attempts_witness:
  "is_attempt (CloseAttempt 12) \<and> is_attempt (Unmap ''iconic'' 10) \<and>
   attempts (run []) = 0 \<and>
   ui (step (run []) (CloseAttempt 12)) = [warning_dialog, BringToFront RootWindow] \<and>
   attempts (run [CloseAttempt 9]) = 1 \<and> \<not> overlay_open (run [CloseAttempt 9]) \<and>
   opened (ui (run [CloseAttempt 9])) = [] \<and>
   opened (ui (step (run [CloseAttempt 9]) (Unmap ''iconic'' 10))) = [0] \<and>
   overlays (step (run [CloseAttempt 9]) (Unmap ''iconic'' 10)) = [0] \<and>
   overlay_open (run [CloseAttempt 9, Unmap ''iconic'' 10]) \<and>
   overlays (step (run [CloseAttempt 9, Unmap ''iconic'' 10]) (CloseAttempt 12)) = [0] \<and>
   opened (ui (step (run [CloseAttempt 9, Unmap ''iconic'' 10]) (CloseAttempt 12))) = [0] \<and>
   last (ui (step (run [CloseAttempt 9, Unmap ''iconic'' 10]) (CloseAttempt 12))) =
     BringToFront (OverlayWindow 0) \<and>
   0 \<in> set (overlays (run [CloseAttempt 9, Unmap ''iconic'' 10])) \<and>
   \<not> overlay_open (step (run [CloseAttempt 9, Unmap ''iconic'' 10]) (FinishTimer 0)) \<and>
   attempts (step (run [CloseAttempt 9, Unmap ''iconic'' 10]) (FinishTimer 0)) = 0"
proof -
  have a1: "is_attempt (CloseAttempt 12)" and a2: "is_attempt (Unmap ''iconic'' 10)"
    by simp_all
  have s0: "attempts (run []) = 0" "ui (run []) = []"
    by (simp_all add: run_def initial_root_def)
  have s1: "attempts (run [CloseAttempt 9]) = 1" "\<not> overlay_open (run [CloseAttempt 9])"
      "opened (ui (run [CloseAttempt 9])) = []"
    by code_simp+
  have s2: "overlay_open (run [CloseAttempt 9, Unmap ''iconic'' 10])"
      "overlays (run [CloseAttempt 9, Unmap ''iconic'' 10]) = [0]"
      "opened (ui (run [CloseAttempt 9, Unmap ''iconic'' 10])) = [0]"
    by code_simp+
  have r2: "run [CloseAttempt 9, Unmap ''iconic'' 10] =
            step (run [CloseAttempt 9]) (Unmap ''iconic'' 10)"
    by (simp add: run_def)
  note t0 = window_guard_attempts [OF a1, of "[]"]
  note t2 = window_guard_attempts [OF a1, of "[CloseAttempt 9, Unmap ''iconic'' 10]"]
  have w0: "ui (step (run []) (CloseAttempt 12)) = [warning_dialog, BringToFront RootWindow]"
    using t0 s0 unfolding Let_def by simp
  have w2: "overlays (step (run [CloseAttempt 9, Unmap ''iconic'' 10]) (CloseAttempt 12)) = [0]"
      "opened (ui (step (run [CloseAttempt 9, Unmap ''iconic'' 10]) (CloseAttempt 12))) = [0]"
      "last (ui (step (run [CloseAttempt 9, Unmap ''iconic'' 10]) (CloseAttempt 12))) =
        BringToFront (OverlayWindow 0)"
    using t2 s2 unfolding Let_def by auto
  have w3: "\<not> overlay_open (step (run [CloseAttempt 9, Unmap ''iconic'' 10]) (FinishTimer 0))"
      "attempts (step (run [CloseAttempt 9, Unmap ''iconic'' 10]) (FinishTimer 0)) = 0"
    using t2 s2 unfolding Let_def by auto
  have m: "0 \<in> set (overlays (run [CloseAttempt 9, Unmap ''iconic'' 10]))"
    by (simp add: s2)
  show ?thesis
    using a1 a2 s0(1) w0 s1 s2(1, 2, 3) [unfolded r2] s2(1) w2 m w3 by (intro conjI) blast+
qed

text \<open>
  Claim C2, as stated, fails: after three close attempts with the overlay still open,
  \<^verbatim>\<open>attempts\<close> is 3 and not 2, since \<^verbatim>\<open>on_close_attempt\<close> counts the attempt before it
  looks at the overlay.
\<close>

theorem three_closes_counter_counterexample:
  "overlay_open (run [CloseAttempt 9, CloseAttempt 9, CloseAttempt 9]) \<and>
   attempts (run [CloseAttempt 9, CloseAttempt 9, CloseAttempt 9]) \<noteq> 2"
  by code_simp

text \<open>
  Claim C2, amended. For three close attempts in a row from the start, whatever the
  durations drawn: the first creates no overlay, the second creates the overlay 0, and
  the third creates none and only brings overlay 0 to the front. \<^verbatim>\<open>attempts\<close> is 2
  after the second attempt and 3 after the third, and the timer of the overlay resets
  it to 0 and closes the overlay.
\<close>

theorem three_closes_one_overlay:
  "(let s1 = run [CloseAttempt r1];
        s2 = run [CloseAttempt r1, CloseAttempt r2];
        s3 = run [CloseAttempt r1, CloseAttempt r2, CloseAttempt r3];
        s4 = step s3 (FinishTimer 0)
    in opened (ui s1) = [] \<and> opened (ui s2) = [0] \<and> opened (ui s3) = [0] \<and>
       ui s3 = ui s2 @ [BringToFront (OverlayWindow 0)] \<and>
       overlay_open s2 \<and> overlay_open s3 \<and>
       active_overlay s2 = Some 0 \<and> active_overlay s3 = Some 0 \<and>
       overlays s2 = [0] \<and> overlays s3 = [0] \<and>
       attempts s1 = 1 \<and> attempts s2 = 2 \<and> attempts s3 = 3 \<and>
       attempts s4 = 0 \<and> \<not> overlay_open s4 \<and> active_overlay s4 = None \<and> overlays s4 = [])"
  by (simp add: run_def initial_root_def on_close_attempt_def show_overlay_then_reset_def
      finish_def Let_def warning_dialog_def)

theorem three_closes_one_overlay_witness:
  "opened (ui (run [CloseAttempt 9, CloseAttempt 12])) = [0] \<and>
   opened (ui (run [CloseAttempt 9, CloseAttempt 12, CloseAttempt 17])) = [0] \<and>
   attempts (run [CloseAttempt 9, CloseAttempt 12]) = 2 \<and>
   attempts (run [CloseAttempt 9, CloseAttempt 12, CloseAttempt 17]) = 3 \<and>
   attempts (step (run [CloseAttempt 9, CloseAttempt 12, CloseAttempt 17]) (FinishTimer 0)) = 0"
  using three_closes_one_overlay [of 9 12 17] unfolding Let_def by blast

section \<open>IP geolocation\<close>

lemma provider_fails_iff:
  "\<not> provider_fails resp \<longleftrightarrow> (\<exists>r. try_provider resp = Inr (Some r))"
  by (auto simp: provider_fails_def split: sum.splits option.splits)

lemma fetch_loop_fail_step:
  assumes "provider_fails (net u)"
  shows "fetch_loop net (u # urls) = (u # fst (fetch_loop net urls), snd (fetch_loop net urls))"
  using assms
  by (auto simp: provider_fails_def split: sum.splits option.splits prod.splits)

lemma fetch_loop_all_fail:
  assumes "\<forall>u \<in> set urls. provider_fails (net u)"
  shows "fetch_loop net urls = (urls, ([], ''Unknown''))"
  using assms
proof (induction urls)
  case Nil
  then show ?case by simp
next
  case (Cons u urls)
  then show ?case by (simp add: fetch_loop_fail_step del: fetch_loop.simps(2))
qed

lemma fetch_loop_first_success:
  assumes "\<forall>f \<in> set fs. provider_fails (net f)" "try_provider (net u) = Inr (Some r)"
  shows "fetch_loop net (fs @ u # rest) = (fs @ [u], r)"
  using assms
proof (induction fs)
  case Nil
  then show ?case by simp
next
  case (Cons f fs)
  then show ?case by (simp add: fetch_loop_fail_step del: fetch_loop.simps(2))
qed

lemma provider_failures:
  "provider_fails Unavailable" "provider_fails (Body None)"
  "(\<forall>d. j \<noteq> JObj d) \<Longrightarrow> provider_fails (Body (Some j))"
proof -
  show "provider_fails Unavailable" by (simp add: provider_fails_def try_provider_def)
  show "provider_fails (Body None)"
    by (simp add: provider_fails_def try_provider_def dict_get_def py_or_def py_strip_def)
  show "provider_fails (Body (Some j))" if "\<forall>d. j \<noteq> JObj d"
    using that by (cases j) (simp_all add: provider_fails_def try_provider_def)
qed

text \<open>
  Claim C9. \<^verbatim>\<open>fetch_ip_location\<close> never raises. It requests the providers of its fixed
  list in order: the leading providers that fail are each requested and passed over,
  and the first provider that gives a result ends the loop with that result; when all
  three fail, all three were requested and the value returned is the placeholder with
  an empty city and the country \<open>Unknown\<close>. A request that raises (timeout, provider
  unavailable), a body that is not JSON and a JSON value that is not an object are
  failures.
\<close>

theorem fetch_ip_location_falls_through:
  "(let failed = takeWhile (\<lambda>u. provider_fails (net u)) services;
        req = fst (fetch_ip_location net);
        res = snd (fetch_ip_location net)
    in (\<exists>r. res = Inr r) \<and>
       (failed = services \<longrightarrow> req = services \<and> res = Inr ([], ''Unknown'')) \<and>
       (failed \<noteq> services \<longrightarrow>
          req = failed @ [services ! length failed] \<and>
          (\<exists>r. res = Inr r \<and> try_provider (net (services ! length failed)) = Inr (Some r)))) \<and>
   provider_fails Unavailable \<and> provider_fails (Body None) \<and>
   ((\<forall>d. j \<noteq> JObj d) \<longrightarrow> provider_fails (Body (Some j)))"
proof -
  let ?P = "\<lambda>u. provider_fails (net u)"
  let ?failed = "takeWhile ?P services"
  have nr: "\<exists>r. snd (fetch_ip_location net) = Inr r"
    by (simp add: fetch_ip_location_def split: prod.splits)
  have allf: "?failed = services \<longrightarrow>
      fst (fetch_ip_location net) = services \<and>
      snd (fetch_ip_location net) = Inr ([], ''Unknown'')"
  proof
    assume "?failed = services"
    then have "\<forall>u \<in> set services. ?P u" by (simp add: takeWhile_eq_all_conv)
    then have "fetch_loop net services = (services, ([], ''Unknown''))"
      by (rule fetch_loop_all_fail)
    then show "fst (fetch_ip_location net) = services \<and>
      snd (fetch_ip_location net) = Inr ([], ''Unknown'')"
      by (simp add: fetch_ip_location_def)
  qed
  have some: "?failed \<noteq> services \<longrightarrow>
      fst (fetch_ip_location net) = ?failed @ [services ! length ?failed] \<and>
      (\<exists>r. snd (fetch_ip_location net) = Inr r \<and>
           try_provider (net (services ! length ?failed)) = Inr (Some r))"
  proof
    assume ne: "?failed \<noteq> services"
    then have dn: "dropWhile ?P services \<noteq> []"
      by (metis takeWhile_dropWhile_id append_Nil2)
    then obtain u rest where d: "dropWhile ?P services = u # rest"
      by (cases "dropWhile ?P services") auto
    have nf: "\<not> ?P u" using d by (metis hd_dropWhile dn list.sel(1))
    then obtain r where r: "try_provider (net u) = Inr (Some r)"
      unfolding provider_fails_iff by blast
    have sp: "services = ?failed @ u # rest"
      using takeWhile_dropWhile_id [of ?P services] d by simp
    have u: "services ! length ?failed = u"
      by (subst sp) (simp only: nth_append_length)
    have ff: "\<forall>f \<in> set ?failed. ?P f" by (auto dest: set_takeWhileD)
    have "fetch_loop net (?failed @ u # rest) = (?failed @ [u], r)"
      using ff r by (rule fetch_loop_first_success)
    then have "fetch_loop net services = (?failed @ [u], r)" using sp by simp
    then show "fst (fetch_ip_location net) = ?failed @ [services ! length ?failed] \<and>
      (\<exists>r. snd (fetch_ip_location net) = Inr r \<and>
           try_provider (net (services ! length ?failed)) = Inr (Some r))"
      using r u by (simp add: fetch_ip_location_def)
  qed
  show ?thesis
    unfolding Let_def
    using nr allf some provider_failures(1, 2) provider_failures(3) [of j] by blast
qed

theorem fetch_ip_location_falls_through_witness:
  "takeWhile (\<lambda>u. provider_fails (Unavailable)) services = services \<and>
   fetch_ip_location (\<lambda>u. Unavailable) = (services, Inr ([], ''Unknown'')) \<and>
   fetch_ip_location
     (\<lambda>u. if u = ''https://ipinfo.io/json''
          then Body (Some (JObj [(''city'', JStr '' Lima ''), (''country'', JStr ''PE'')]))
          else Body None) =
     ([''https://ipapi.co/json/'', ''https://ipinfo.io/json''], Inr (''Lima'', ''PE'')) \<and>
   provider_fails (Body (Some (JArr [])))"
proof -
  have tw: "takeWhile (\<lambda>u. provider_fails (Unavailable)) services = services"
    by (simp add: provider_failures takeWhile_eq_all_conv)
  note t = fetch_ip_location_falls_through [of "\<lambda>u. Unavailable" "JArr []"]
  have "fst (fetch_ip_location (\<lambda>u. Unavailable)) = services \<and>
        snd (fetch_ip_location (\<lambda>u. Unavailable)) = Inr ([], ''Unknown'')"
    using t tw unfolding Let_def by blast
  then have a: "fetch_ip_location (\<lambda>u. Unavailable) = (services, Inr ([], ''Unknown''))"
    by (simp add: prod_eq_iff)
  have b: "fetch_ip_location
     (\<lambda>u. if u = ''https://ipinfo.io/json''
          then Body (Some (JObj [(''city'', JStr '' Lima ''), (''country'', JStr ''PE'')]))
          else Body None) =
     ([''https://ipapi.co/json/'', ''https://ipinfo.io/json''], Inr (''Lima'', ''PE''))"
    by code_simp
  have c: "provider_fails (Body (Some (JArr [])))" using t by blast
  show ?thesis by (intro conjI tw a b c)
qed

end
